theory Spec2Isabelle
  imports Complex_Main "HOL-Library.Monad_Syntax"
begin

section \<open>Map viewport and path-following engine of EnhancedNetworkMap.tsx\<close>

text \<open>
  The TypeScript component keeps all of its numbers as JavaScript \<open>number\<close>s. The
  functions are modelled twice. First over \<^typ>\<open>real\<close>: arithmetic is exact and
  \<open>Math.hypot\<close> is the Euclidean norm; what is proved of these definitions is a property
  of the algorithm in exact arithmetic. Then, for the geometric functions, in the
  arithmetic of doubles, every arithmetic result rounded as it is computed (the functions
  with an \<open>F\<close> below); what is evaluated there is what the code computes. The one
  \<open>Infinity\<close> of the source, the initial \<open>bestDist\<close>, is \<open>None\<close> of an option.
  A point \<open>{x, y}\<close> is a pair; \<open>fst\<close> reads \<open>.x\<close> and \<open>snd\<close> reads \<open>.y\<close>.
\<close>

type_synonym point = "real \<times> real"

definition hypot :: "real \<Rightarrow> real \<Rightarrow> real" where
  "hypot dx dy = sqrt (dx\<^sup>2 + dy\<^sup>2)"

subsection \<open>getPointAlongPath (lines 126-163)\<close>

text \<open>First loop: the list \<open>segmentLengths\<close> and the running sum \<open>total\<close>.\<close>

function lengthsLoop :: "point list \<Rightarrow> nat \<Rightarrow> real list \<Rightarrow> real \<Rightarrow> real list \<times> real" where
  "lengthsLoop points i segmentLengths totalLen =
     (if i < length points - 1 then
        (let dx = fst (points ! (i + 1)) - fst (points ! i);
             dy = snd (points ! (i + 1)) - snd (points ! i);
             len = hypot dx dy
         in lengthsLoop points (i + 1) (segmentLengths @ [len]) (totalLen + len))
      else (segmentLengths, totalLen))"
  by pat_completeness auto
termination
  by (relation "measure (\<lambda>(points, i, segmentLengths, totalLen). length points - i)") auto

declare lengthsLoop.simps [simp del]

text \<open>Second loop: the scan for the segment that holds \<open>target\<close>. \<open>None\<close> is the
  fall-through to the code after the loop.\<close>

function scanLoop :: "point list \<Rightarrow> real list \<Rightarrow> real \<Rightarrow> nat \<Rightarrow> real \<Rightarrow> (point \<times> point) option" where
  "scanLoop points segmentLengths target i acc =
     (if i < length segmentLengths then
        (let nextAcc = acc + segmentLengths ! i in
         if target \<le> nextAcc then
           (let localT = (if segmentLengths ! i = 0 then 0 else (target - acc) / (segmentLengths ! i));
                p0 = points ! i;
                p1 = points ! (i + 1);
                x = fst p0 + (fst p1 - fst p0) * localT;
                y = snd p0 + (snd p1 - snd p0) * localT;
                tx = fst p1 - fst p0;
                ty = snd p1 - snd p0
            in Some ((x, y), (tx, ty)))
         else scanLoop points segmentLengths target (i + 1) nextAcc)
      else None)"
  by pat_completeness auto
termination
  by (relation "measure (\<lambda>(points, segmentLengths, target, i, acc). length segmentLengths - i)") auto

declare scanLoop.simps [simp del]

definition getPointAlongPath :: "point list \<Rightarrow> real \<Rightarrow> point \<times> point" where
  "getPointAlongPath points progress =
     (if length points = 0 then ((0, 0), (1, 0))
      else if length points = 1 then (points ! 0, (1, 0))
      else
        (let (segmentLengths, totalLen) = lengthsLoop points 0 [] 0 in
         if totalLen = 0 then (points ! 0, (1, 0))
         else
           (let target = max 0 (min 1 progress) * totalLen in
            case scanLoop points segmentLengths target 0 0 of
              Some r \<Rightarrow> r
            | None \<Rightarrow>
                (let lastPt = points ! (length points - 1);
                     prev = points ! (length points - 2)
                 in (lastPt, (fst lastPt - fst prev, snd lastPt - snd prev))))))"

text \<open>Names for what the two loops compute, used to state the properties below:
  the length of segment \<open>i\<close>, the list and the sum that the first loop returns, the
  cumulative length before segment \<open>k\<close> (the value of \<open>acc\<close> when the second loop
  reaches \<open>k\<close>), and the value the second loop returns at segment \<open>k\<close>.\<close>

definition segLen :: "point list \<Rightarrow> nat \<Rightarrow> real" where
  "segLen points i = hypot (fst (points ! Suc i) - fst (points ! i)) (snd (points ! Suc i) - snd (points ! i))"

definition cumLen :: "real list \<Rightarrow> nat \<Rightarrow> real" where
  "cumLen lens k = sum_list (take k lens)"

definition interpolateAt :: "point list \<Rightarrow> real list \<Rightarrow> real \<Rightarrow> nat \<Rightarrow> point \<times> point" where
  "interpolateAt points lens target k =
     (let localT = (if lens ! k = 0 then 0 else (target - cumLen lens k) / (lens ! k));
          p0 = points ! k;
          p1 = points ! Suc k
      in ((fst p0 + (fst p1 - fst p0) * localT, snd p0 + (snd p1 - snd p0) * localT),
          (fst p1 - fst p0, snd p1 - snd p0)))"

definition segmentLengthsOf :: "point list \<Rightarrow> real list" where
  "segmentLengthsOf points = fst (lengthsLoop points 0 [] 0)"

definition pathTotal :: "point list \<Rightarrow> real" where
  "pathTotal points = snd (lengthsLoop points 0 [] 0)"

subsection \<open>projectPointOntoPolyline (lines 473-499)\<close>

text \<open>\<open>projectOntoSegment\<close> is the body of the loop up to \<open>proj\<close>: the projection of
  \<open>point\<close> onto the segment from \<open>p0\<close> to \<open>p1\<close>, with the parameter clamped to
  \<open>[0, 1]\<close> and set to \<open>0\<close> on a segment of length zero. The initial
  \<open>bestDist = Infinity\<close> is \<open>None\<close>.\<close>

definition projectOntoSegment :: "point \<Rightarrow> point \<Rightarrow> point \<Rightarrow> point" where
  "projectOntoSegment point p0 p1 =
     (let vx = fst p1 - fst p0;
          vy = snd p1 - snd p0;
          wx = fst point - fst p0;
          wy = snd point - snd p0;
          c1 = vx * wx + vy * wy;
          c2 = vx * vx + vy * vy;
          t = (if c2 = 0 then 0 else max 0 (min 1 (c1 / c2)))
      in (fst p0 + t * vx, snd p0 + t * vy))"

function projectLoop :: "point \<Rightarrow> point list \<Rightarrow> nat \<Rightarrow> real option \<Rightarrow> point \<Rightarrow> point" where
  "projectLoop point polyline i bestDist bestPoint =
     (if i < length polyline - 1 then
        (let p0 = polyline ! i;
             p1 = polyline ! (i + 1);
             proj = projectOntoSegment point p0 p1;
             d = hypot (fst point - fst proj) (snd point - snd proj)
         in if (case bestDist of None \<Rightarrow> True | Some b \<Rightarrow> d < b)
            then projectLoop point polyline (i + 1) (Some d) proj
            else projectLoop point polyline (i + 1) bestDist bestPoint)
      else bestPoint)"
  by pat_completeness auto
termination
  by (relation "measure (\<lambda>(point, polyline, i, bestDist, bestPoint). length polyline - i)") auto

declare projectLoop.simps [simp del]

definition projectPointOntoPolyline :: "point \<Rightarrow> point list \<Rightarrow> point" where
  "projectPointOntoPolyline point polyline =
     (if length polyline = 0 then point
      else if length polyline = 1 then polyline ! 0
      else projectLoop point polyline 0 None (polyline ! 0))"






subsection \<open>Trains, stations and lines\<close>

text \<open>The fields of \<open>Train\<close>, \<open>Station\<close>, \<open>RailwayLine\<close> and \<open>TrackSegment\<close> that the
  engine reads or writes (the others are only displayed). \<open>id\<close> and \<open>type\<close> are
  \<open>trainId\<close> and \<open>trainType\<close>; a station's \<open>id\<close> and \<open>position\<close> are \<open>stationId\<close> and
  \<open>stationPos\<close>.\<close>

datatype trainType = Passenger | Express | Freight

record train =
  trainId :: string
  trainType :: trainType
  currentStation :: string
  nextStation :: string
  speed :: real
  maxSpeed :: real
  delay :: real
  route :: "string list"
  position :: point

record station =
  stationId :: string
  stationPos :: point

record railwayLine =
  lineStations :: "string list"
  coordinates :: "point list"

record trackSegment =
  segStart :: point
  segEnd :: point
  segStations :: "string list"

definition trackSegments :: "trackSegment list" where
  "trackSegments =
     [\<lparr>segStart = (350, 250), segEnd = (400, 300), segStations = [''ST002'', ''ST001'']\<rparr>,
      \<lparr>segStart = (400, 300), segEnd = (450, 350), segStations = [''ST001'', ''ST003'']\<rparr>]"

text \<open>What the handlers read from outside the component state: the bounding rectangle of
  the map container (left, top, width, height; \<open>None\<close> while the ref is null), the lines
  and stations, and the routes set up when the component is mounted.\<close>

record env =
  container :: "(real \<times> real \<times> real \<times> real) option"
  realLines :: "railwayLine list"
  stations :: "station list"
  trainRoutes :: "string \<rightharpoonup> string list"

definition startsWithM :: "string \<Rightarrow> bool" where
  "startsWithM s = (case s of [] \<Rightarrow> False | c # _ \<Rightarrow> c = CHR ''M'')"

subsection \<open>getLinePointsBetweenStations (lines 113-123)\<close>

definition getLinePointsBetweenStations :: "railwayLine list \<Rightarrow> string \<Rightarrow> string \<Rightarrow> point list option" where
  "getLinePointsBetweenStations lines stationAId stationBId =
     (let realLine = find (\<lambda>line. stationAId \<in> set (lineStations line) \<and> stationBId \<in> set (lineStations line)) lines;
          fallback = find (\<lambda>seg. stationAId \<in> set (segStations seg) \<and> stationBId \<in> set (segStations seg)) trackSegments
      in case realLine of
           Some line \<Rightarrow>
             if 2 \<le> length (coordinates line) then Some (map (\<lambda>p. (fst p, snd p)) (coordinates line))
             else (case fallback of Some seg \<Rightarrow> Some [segStart seg, segEnd seg] | None \<Rightarrow> None)
         | None \<Rightarrow> (case fallback of Some seg \<Rightarrow> Some [segStart seg, segEnd seg] | None \<Rightarrow> None))"

subsection \<open>The component state\<close>

text \<open>The \<open>useState\<close> and \<open>useRef\<close> cells of the component. \<open>frames\<close> is the browser's
  list of pending \<open>requestAnimationFrame\<close> callbacks, each the handle it was given and the
  velocity \<open>(vx, vy)\<close> that its \<open>step\<close> closure captured; \<open>nextHandle\<close> is the handle the
  next request returns (handles are positive, so a stored handle is truthy).\<close>

record mapState =
  zoom :: real
  pan :: point
  isDragging :: bool
  dragStart :: point
  lastMove :: "(real \<times> real \<times> real) option"
  velocity :: point
  inertiaAnim :: "nat option"
  frames :: "(nat \<times> point) list"
  nextHandle :: nat
  isPinching :: bool
  startDistance :: real
  lastDistance :: real
  lastCenter :: "point option"
  placeMode :: bool
  manualTrains :: "train list"
  draggingTrainId :: "string option"
  animatedTrains :: "train list"
  trainProgress :: "string \<rightharpoonup> real"

definition initialState :: "train list \<Rightarrow> (string \<rightharpoonup> real) \<Rightarrow> mapState" where
  "initialState trains progress =
     \<lparr>zoom = 1, pan = (0, 0), isDragging = False, dragStart = (0, 0), lastMove = None,
      velocity = (0, 0), inertiaAnim = None, frames = [], nextHandle = 1,
      isPinching = False, startDistance = 0, lastDistance = 0, lastCenter = None,
      placeMode = False, manualTrains = [], draggingTrainId = None,
      animatedTrains = trains, trainProgress = progress\<rparr>"

subsection \<open>Coordinates (lines 326-331, 459-470, 722)\<close>

definition getContainerPoint :: "env \<Rightarrow> real \<Rightarrow> real \<Rightarrow> point" where
  "getContainerPoint e clientX clientY =
     (case container e of
        None \<Rightarrow> (0, 0)
      | Some (rectLeft, rectTop, rectWidth, rectHeight) \<Rightarrow> (clientX - rectLeft, clientY - rectTop))"


definition getMapCoordinates :: "env \<Rightarrow> mapState \<Rightarrow> real \<Rightarrow> real \<Rightarrow> point" where
  "getMapCoordinates e s clientX clientY =
     (case container e of
        None \<Rightarrow> (0, 0)
      | Some (rectLeft, rectTop, rectWidth, rectHeight) \<Rightarrow>
          (let screenX = clientX - rectLeft;
               screenY = clientY - rectTop;
               x = (screenX - fst (pan s)) / zoom s;
               y = (screenY - snd (pan s)) / zoom s
           in (x, y)))"


subsection \<open>Zoom (lines 194-219, 333-360)\<close>

definition zoomAt :: "point \<Rightarrow> real \<Rightarrow> mapState \<Rightarrow> mapState" where
  "zoomAt pointInContainer scaleFactor s =
     (let prevZoom = zoom s;
          newZoom = max (3 / 10) (min 3 (prevZoom * scaleFactor));
          prevPan = pan s;
          worldX = (fst pointInContainer - fst prevPan) / prevZoom;
          worldY = (snd pointInContainer - snd prevPan) / prevZoom;
          newPanX = fst pointInContainer - worldX * newZoom;
          newPanY = snd pointInContainer - worldY * newZoom
      in s\<lparr>zoom := newZoom, pan := (newPanX, newPanY)\<rparr>)"

definition handleZoomIn :: "env \<Rightarrow> mapState \<Rightarrow> mapState" where
  "handleZoomIn e s =
     (case container e of
        None \<Rightarrow> s\<lparr>zoom := min (zoom s * (12 / 10)) 3\<rparr>
      | Some (rectLeft, rectTop, rectWidth, rectHeight) \<Rightarrow> zoomAt (rectWidth / 2, rectHeight / 2) (12 / 10) s)"

definition handleZoomOut :: "env \<Rightarrow> mapState \<Rightarrow> mapState" where
  "handleZoomOut e s =
     (case container e of
        None \<Rightarrow> s\<lparr>zoom := max (zoom s / (12 / 10)) (3 / 10)\<rparr>
      | Some (rectLeft, rectTop, rectWidth, rectHeight) \<Rightarrow> zoomAt (rectWidth / 2, rectHeight / 2) (1 / (12 / 10)) s)"

definition handleResetZoom :: "mapState \<Rightarrow> mapState" where
  "handleResetZoom s = s\<lparr>zoom := 1, pan := (0, 0)\<rparr>"

definition handleWheel :: "env \<Rightarrow> real \<Rightarrow> real \<Rightarrow> real \<Rightarrow> mapState \<Rightarrow> mapState" where
  "handleWheel e clientX clientY deltaY s =
     (let point = getContainerPoint e clientX clientY;
          delta = (if deltaY > 0 then 9 / 10 else 11 / 10)
      in zoomAt point delta s)"

definition handleDoubleClick :: "env \<Rightarrow> real \<Rightarrow> real \<Rightarrow> mapState \<Rightarrow> mapState" where
  "handleDoubleClick e clientX clientY s = zoomAt (getContainerPoint e clientX clientY) (125 / 100) s"


subsection \<open>Animation frames and inertia (lines 306-324, 435-457)\<close>

definition requestAnimationFrame :: "point \<Rightarrow> mapState \<Rightarrow> mapState" where
  "requestAnimationFrame v s =
     s\<lparr>frames := frames s @ [(nextHandle s, v)],
       inertiaAnim := Some (nextHandle s),
       nextHandle := nextHandle s + 1\<rparr>"

definition cancelAnimationFrame :: "nat \<Rightarrow> mapState \<Rightarrow> mapState" where
  "cancelAnimationFrame h s = s\<lparr>frames := filter (\<lambda>f. fst f \<noteq> h) (frames s)\<rparr>"

text \<open>The closure \<open>step\<close> of \<open>handleMouseUp\<close> and \<open>handleTouchEnd\<close> (the two are the same
  text). \<open>vx\<close> and \<open>vy\<close> are the constants the closure captured when the pointer was
  released; \<open>decay\<close> is \<open>0.95\<close>.\<close>

definition inertiaStep :: "point \<Rightarrow> mapState \<Rightarrow> mapState" where
  "inertiaStep v s =
     (let vx = fst v;
          vy = snd v;
          decay = 95 / 100;
          s1 = s\<lparr>pan := (fst (pan s) + vx * 16, snd (pan s) + vy * 16)\<rparr>;
          s2 = s1\<lparr>velocity := (vx * decay, vy * decay)\<rparr>
      in if hypot (fst (velocity s2)) (snd (velocity s2)) > 1 / 100
         then requestAnimationFrame v s2
         else s2\<lparr>inertiaAnim := None\<rparr>)"

definition startInertia :: "mapState \<Rightarrow> mapState" where
  "startInertia s =
     (let vx = fst (velocity s);
          vy = snd (velocity s)
      in if hypot vx vy > 1 / 100 then requestAnimationFrame (vx, vy) s else s)"

text \<open>One animation frame of the browser: the callbacks pending when the frame starts run
  in the order they were requested; those requested while it runs wait for the next one.\<close>

definition animationFrame :: "mapState \<Rightarrow> mapState" where
  "animationFrame s = foldl (\<lambda>st f. inertiaStep (snd f) st) (s\<lparr>frames := []\<rparr>) (frames s)"

subsection \<open>Mouse handlers (lines 226-324, 965-971)\<close>

definition startPan :: "real \<Rightarrow> real \<Rightarrow> real \<Rightarrow> mapState \<Rightarrow> mapState" where
  "startPan clientX clientY now s =
     (let s1 = s\<lparr>isDragging := True,
                 dragStart := (clientX - fst (pan s), clientY - snd (pan s)),
                 lastMove := Some (clientX, clientY, now),
                 velocity := (0, 0)\<rparr>
      in case inertiaAnim s1 of
           Some h \<Rightarrow> (cancelAnimationFrame h s1)\<lparr>inertiaAnim := None\<rparr>
         | None \<Rightarrow> s1)"

definition handleMouseDown :: "env \<Rightarrow> real \<Rightarrow> real \<Rightarrow> bool \<Rightarrow> string \<Rightarrow> real \<Rightarrow> mapState \<Rightarrow> mapState" where
  "handleMouseDown e clientX clientY clickedTrain dateNow now s =
     (if placeMode s \<and> \<not> clickedTrain then
        (let coords = getMapCoordinates e s clientX clientY;
             newTrain = \<lparr>trainId = CHR ''M'' # dateNow, trainType = Express,
                         currentStation = ''ST001'', nextStation = ''ST002'',
                         speed = 0, maxSpeed = 120, delay = 0, route = [],
                         position = (fst coords, snd coords)\<rparr>
         in s\<lparr>manualTrains := manualTrains s @ [newTrain],
              draggingTrainId := Some (trainId newTrain)\<rparr>)
      else startPan clientX clientY now s)"

text \<open>\<open>onMouseDown\<close> of a train marker: a manual train in place mode is grabbed and the
  event stops there; otherwise the event bubbles to the container's \<open>handleMouseDown\<close>.\<close>

definition trainMouseDown :: "env \<Rightarrow> string \<Rightarrow> real \<Rightarrow> real \<Rightarrow> bool \<Rightarrow> string \<Rightarrow> real \<Rightarrow> mapState \<Rightarrow> mapState" where
  "trainMouseDown e tid clientX clientY clickedTrain dateNow now s =
     (if placeMode s \<and> startsWithM tid then s\<lparr>draggingTrainId := Some tid\<rparr>
      else handleMouseDown e clientX clientY clickedTrain dateNow now s)"

text \<open>The part of \<open>handleMouseMove\<close> and \<open>handleTouchMove\<close> that moves a grabbed train.\<close>

definition dragTrain :: "env \<Rightarrow> string \<Rightarrow> point \<Rightarrow> mapState \<Rightarrow> mapState" where
  "dragTrain e tid coords s =
     (let isManual = startsWithM tid in
      if isManual then
        s\<lparr>manualTrains := map (\<lambda>t. if trainId t = tid then t\<lparr>position := coords\<rparr> else t) (manualTrains s)\<rparr>
      else
        (case find (\<lambda>t. trainId t = tid) (animatedTrains s) of
           None \<Rightarrow> s
         | Some draggedTrain \<Rightarrow>
             (case getLinePointsBetweenStations (realLines e) (currentStation draggedTrain) (nextStation draggedTrain) of
                Some pathPoints \<Rightarrow>
                  if 2 \<le> length pathPoints then
                    (let projected = projectPointOntoPolyline coords pathPoints
                     in s\<lparr>animatedTrains := map (\<lambda>t. if trainId t = tid then t\<lparr>position := projected\<rparr> else t) (animatedTrains s)\<rparr>)
                  else s\<lparr>animatedTrains := map (\<lambda>t. if trainId t = tid then t\<lparr>position := coords\<rparr> else t) (animatedTrains s)\<rparr>
              | None \<Rightarrow> s\<lparr>animatedTrains := map (\<lambda>t. if trainId t = tid then t\<lparr>position := coords\<rparr> else t) (animatedTrains s)\<rparr>)))"

text \<open>The velocity estimate shared by the two move handlers.\<close>

definition trackVelocity :: "real \<Rightarrow> real \<Rightarrow> real \<Rightarrow> mapState \<Rightarrow> mapState" where
  "trackVelocity clientX clientY now s =
     (let s1 = (case lastMove s of
                  Some (lastX, lastY, lastT) \<Rightarrow>
                    (let dt = max 16 (now - lastT);
                         vx = (clientX - lastX) / dt;
                         vy = (clientY - lastY) / dt
                     in s\<lparr>velocity := (vx, vy)\<rparr>)
                | None \<Rightarrow> s)
      in s1\<lparr>lastMove := Some (clientX, clientY, now)\<rparr>)"

text \<open>\<open>if (draggingTrainId)\<close>: \<open>null\<close> and the empty string are falsy.\<close>

definition grabbedTrain :: "mapState \<Rightarrow> string option" where
  "grabbedTrain s = (case draggingTrainId s of Some tid \<Rightarrow> (if tid = [] then None else Some tid) | None \<Rightarrow> None)"

definition handleMouseMove :: "env \<Rightarrow> real \<Rightarrow> real \<Rightarrow> real \<Rightarrow> mapState \<Rightarrow> mapState" where
  "handleMouseMove e clientX clientY now s =
     (case grabbedTrain s of
        Some tid \<Rightarrow> dragTrain e tid (getMapCoordinates e s clientX clientY) s
      | None \<Rightarrow>
          if isDragging s then
            trackVelocity clientX clientY now
              (s\<lparr>pan := (clientX - fst (dragStart s), clientY - snd (dragStart s))\<rparr>)
          else s)"

definition handleMouseUp :: "mapState \<Rightarrow> mapState" where
  "handleMouseUp s = startInertia (s\<lparr>isDragging := False, draggingTrainId := None\<rparr>)"

subsection \<open>Touch handlers (lines 363-457)\<close>

definition handleTouchStart :: "env \<Rightarrow> point list \<Rightarrow> real \<Rightarrow> mapState \<Rightarrow> mapState" where
  "handleTouchStart e touches now s =
     (if length touches = 1 then
        (let t = touches ! 0 in startPan (fst t) (snd t) now s)
      else if length touches = 2 then
        (let a = touches ! 0;
             b = touches ! 1;
             dx = fst b - fst a;
             dy = snd b - snd a
         in s\<lparr>isPinching := True,
              startDistance := hypot dx dy,
              lastDistance := hypot dx dy,
              lastCenter := Some (getContainerPoint e ((fst a + fst b) / 2) ((snd a + snd b) / 2))\<rparr>)
      else s)"

definition handleTouchMove :: "env \<Rightarrow> point list \<Rightarrow> real \<Rightarrow> mapState \<Rightarrow> mapState" where
  "handleTouchMove e touches now s =
     (if isPinching s \<and> length touches = 2 then
        (let a = touches ! 0;
             b = touches ! 1;
             dx = fst b - fst a;
             dy = snd b - snd a;
             dist = hypot dx dy;
             center = getContainerPoint e ((fst a + fst b) / 2) ((snd a + snd b) / 2);
             factor = dist / max 1 (lastDistance s)
         in (zoomAt center factor s)\<lparr>lastDistance := dist, lastCenter := Some center\<rparr>)
      else if length touches = 1 \<and> isDragging s then
        (let t = touches ! 0;
             s1 = (case grabbedTrain s of
                     Some tid \<Rightarrow> dragTrain e tid (getMapCoordinates e s (fst t) (snd t)) s
                   | None \<Rightarrow> s\<lparr>pan := (fst t - fst (dragStart s), snd t - snd (dragStart s))\<rparr>)
         in trackVelocity (fst t) (snd t) now s1)
      else s)"

definition handleTouchEnd :: "mapState \<Rightarrow> mapState" where
  "handleTouchEnd s =
     (if isPinching s then s\<lparr>isPinching := False\<rparr>
      else if isDragging s then startInertia (s\<lparr>isDragging := False\<rparr>)
      else s)"


subsection \<open>The train animation tick (lines 502-581) and getRandomSpeed\<close>

text \<open>\<open>Math.random()\<close> is an input: each train of a tick gets a pair of draws, the first
  for \<open>getRandomSpeed\<close> and the second for the speed variation.\<close>

definition getRandomSpeed :: "trainType \<Rightarrow> real \<Rightarrow> real" where
  "getRandomSpeed ty r =
     (case ty of
        Express \<Rightarrow> of_int \<lfloor>r * 40\<rfloor> + 100
      | Passenger \<Rightarrow> of_int \<lfloor>r * 30\<rfloor> + 70
      | Freight \<Rightarrow> of_int \<lfloor>r * 25\<rfloor> + 50)"

definition mathRound :: "real \<Rightarrow> real" where
  "mathRound v = of_int \<lfloor>v + 1 / 2\<rfloor>"

definition indexOf :: "string list \<Rightarrow> string \<Rightarrow> int" where
  "indexOf xs a = (if a \<in> set xs then int (length (takeWhile (\<lambda>y. y \<noteq> a) xs)) else - 1)"

definition newSpeedOf :: "train \<Rightarrow> real \<times> real \<Rightarrow> real" where
  "newSpeedOf train r =
     (let baseSpeed = getRandomSpeed (trainType train) (fst r);
          speedVariation = (snd r - 1 / 2) * 20
      in max 30 (min (maxSpeed train) (baseSpeed + speedVariation)))"

definition progressIncrementOf :: "real \<Rightarrow> real \<Rightarrow> real" where
  "progressIncrementOf newSpeed trainDelay =
     (let speedFactor = newSpeed / 100;
          delayFactor = (if trainDelay > 0 then 7 / 10 else 1)
      in speedFactor * delayFactor * (15 / 1000))"

text \<open>The route, the index and id of the next station and the path of a train, when the
  path is resolved with at least two points. On an empty route \<open>nextStationIndex\<close> is
  \<open>NaN\<close> and \<open>nextStationId\<close> is \<open>undefined\<close>, which no line and no track segment lists
  among its stations, so no path is resolved.\<close>

definition resolveTrain :: "env \<Rightarrow> train \<Rightarrow> (string list \<times> nat \<times> string \<times> point list) option" where
  "resolveTrain e train =
     (let trainRoute = (case trainRoutes e (trainId train) of Some r \<Rightarrow> r | None \<Rightarrow> route train) in
      if trainRoute = [] then None
      else
        (let currentStationIndex = indexOf trainRoute (currentStation train);
             nextStationIndex = nat ((currentStationIndex + 1) mod int (length trainRoute));
             nextStationId = trainRoute ! nextStationIndex
         in case getLinePointsBetweenStations (realLines e) (currentStation train) nextStationId of
              Some pathPoints \<Rightarrow>
                if 2 \<le> length pathPoints
                then Some (trainRoute, nextStationIndex, nextStationId, pathPoints)
                else None
            | None \<Rightarrow> None))"

text \<open>The value that the callback of \<open>prevTrains.map\<close> returns for one train.\<close>

definition animateTrain :: "env \<Rightarrow> (string \<rightharpoonup> real) \<Rightarrow> nat \<Rightarrow> train \<Rightarrow> real \<times> real \<Rightarrow> train" where
  "animateTrain e progress index train r =
     (if startsWithM (trainId train) then train
      else
        (let newSpeed = newSpeedOf train r in
         case resolveTrain e train of
           Some (trainRoute, nextStationIndex, nextStationId, pathPoints) \<Rightarrow>
             (let baseProgress = (case progress (trainId train) of Some p \<Rightarrow> p | None \<Rightarrow> 0);
                  spacingOffset = real (index mod 3) * (1 / 10);
                  finalProgress = min (95 / 100) (baseProgress + spacingOffset);
                  newPosition = fst (getPointAlongPath pathPoints finalProgress)
              in train\<lparr>speed := mathRound newSpeed, position := newPosition\<rparr>)
         | None \<Rightarrow>
             (let currentStationRec = find (\<lambda>s. stationId s = currentStation train) (stations e)
              in train\<lparr>speed := mathRound newSpeed,
                       position := (case currentStationRec of Some st \<Rightarrow> stationPos st | None \<Rightarrow> position train)\<rparr>)))"

text \<open>The updater passed to \<open>setTrainProgress\<close>: the new progress map, and whether the
  train reached the end of its path.\<close>

definition updateProgress :: "string \<Rightarrow> real \<Rightarrow> (string \<rightharpoonup> real) \<Rightarrow> (string \<rightharpoonup> real) \<times> bool" where
  "updateProgress tid progressIncrement prev =
     (let currentProgress = (case prev tid of Some p \<Rightarrow> p | None \<Rightarrow> 0);
          newProgress = currentProgress + progressIncrement
      in if newProgress \<ge> 1 then (prev(tid \<mapsto> 0), True) else (prev(tid \<mapsto> newProgress), False))"

text \<open>The updater passed to the inner \<open>setAnimatedTrains\<close>.\<close>

definition advanceStation :: "string \<Rightarrow> string \<Rightarrow> string \<Rightarrow> train list \<Rightarrow> train list" where
  "advanceStation tid nextStationId nextNextId prevTrains =
     map (\<lambda>t. if trainId t = tid then t\<lparr>currentStation := nextStationId, nextStation := nextNextId\<rparr> else t)
       prevTrains"

text \<open>The updaters queued by a tick. React runs an updater either at its dispatch, when
  no update is pending on the component (the state it returns is stored with the update
  and taken as it is when the queue is processed), or when the queue is processed.
  \<open>eager\<close> tells whether the next updater is run at its dispatch. When the outer updater
  of \<open>setAnimatedTrains\<close> is, no update is pending yet at the first \<open>setTrainProgress\<close>
  that it dispatches: the updater of that one is run at once as well, and the
  \<open>setAnimatedTrains\<close> nested in it is queued before the outer update. The state stored
  with the outer update, the mapped list, then replaces what the nested update returned,
  and that update of the stations is lost. From the first dispatch on an update is
  pending: every later updater is run when the queue is processed, after the outer
  update, and advances the stations in the mapped list. When the outer updater is run
  with the queue, all of them are. Each resolved, non-manual train updates the progress
  map, in the order the trains were mapped.\<close>

fun progressPass :: "env \<Rightarrow> (nat \<Rightarrow> real \<times> real) \<Rightarrow> bool \<Rightarrow> (nat \<times> train) list \<Rightarrow>
    (string \<rightharpoonup> real) \<Rightarrow> train list \<Rightarrow> (string \<rightharpoonup> real) \<times> train list" where
  "progressPass e rnd eager [] progress trains = (progress, trains)"
| "progressPass e rnd eager ((index, train) # rest) progress trains =
     (if startsWithM (trainId train) then progressPass e rnd eager rest progress trains
      else
        (case resolveTrain e train of
           None \<Rightarrow> progressPass e rnd eager rest progress trains
         | Some (trainRoute, nextStationIndex, nextStationId, pathPoints) \<Rightarrow>
             (let progressIncrement = progressIncrementOf (newSpeedOf train (rnd index)) (delay train);
                  (progress1, wrapped) = updateProgress (trainId train) progressIncrement progress;
                  trains1 = (if wrapped \<and> \<not> eager
                             then advanceStation (trainId train) nextStationId
                                    (trainRoute ! ((nextStationIndex + 1) mod length trainRoute)) trains
                             else trains)
              in progressPass e rnd False rest progress1 trains1)))"

text \<open>The callback of \<open>setInterval\<close> with what it queues applied: \<open>eager\<close> is whether React
  runs the outer updater at its dispatch (the component has no update pending when the
  interval fires) or with the queue.\<close>

definition tick :: "env \<Rightarrow> (nat \<Rightarrow> real \<times> real) \<Rightarrow> bool \<Rightarrow> mapState \<Rightarrow> mapState" where
  "tick e rnd eager s =
     (let prevTrains = animatedTrains s;
          indexed = zip [0 ..< length prevTrains] prevTrains;
          mapped = map (\<lambda>(index, train). animateTrain e (trainProgress s) index train (rnd index)) indexed;
          (progress1, trains1) = progressPass e rnd eager indexed (trainProgress s) mapped
      in s\<lparr>animatedTrains := trains1, trainProgress := progress1\<rparr>)"

subsection \<open>Events\<close>

datatype event =
    MouseDown real real bool string real
  | TrainMouseDown string real real bool string real
  | MouseMove real real real
  | MouseUp
  | Wheel real real real
  | DoubleClick real real
  | TouchStart "point list" real
  | TouchMove "point list" real
  | TouchEnd
  | ZoomInClick
  | ZoomOutClick
  | ResetZoomClick
  | PlaceModeClick
  | AnimationFrame
  | Tick bool "nat \<Rightarrow> real \<times> real"

fun dispatch :: "env \<Rightarrow> event \<Rightarrow> mapState \<Rightarrow> mapState" where
  "dispatch e (MouseDown clientX clientY clickedTrain dateNow now) s =
     handleMouseDown e clientX clientY clickedTrain dateNow now s"
| "dispatch e (TrainMouseDown tid clientX clientY clickedTrain dateNow now) s =
     trainMouseDown e tid clientX clientY clickedTrain dateNow now s"
| "dispatch e (MouseMove clientX clientY now) s = handleMouseMove e clientX clientY now s"
| "dispatch e MouseUp s = handleMouseUp s"
| "dispatch e (Wheel clientX clientY deltaY) s = handleWheel e clientX clientY deltaY s"
| "dispatch e (DoubleClick clientX clientY) s = handleDoubleClick e clientX clientY s"
| "dispatch e (TouchStart touches now) s = handleTouchStart e touches now s"
| "dispatch e (TouchMove touches now) s = handleTouchMove e touches now s"
| "dispatch e TouchEnd s = handleTouchEnd s"
| "dispatch e ZoomInClick s = handleZoomIn e s"
| "dispatch e ZoomOutClick s = handleZoomOut e s"
| "dispatch e ResetZoomClick s = handleResetZoom s"
| "dispatch e PlaceModeClick s = s\<lparr>placeMode := \<not> placeMode s\<rparr>"
| "dispatch e AnimationFrame s = animationFrame s"
| "dispatch e (Tick eager rnd) s = tick e rnd eager s"

text \<open>A run of the component: events arrive one after the other, each with the
  surroundings it finds.\<close>

fun run :: "(env \<times> event) list \<Rightarrow> mapState \<Rightarrow> mapState" where
  "run [] s = s"
| "run ((e, ev) # rest) s = run rest (dispatch e ev s)"

subsection \<open>The zoom bounds\<close>

definition zoomInBounds :: "mapState \<Rightarrow> bool" where
  "zoomInBounds s \<longleftrightarrow> 3 / 10 \<le> zoom s \<and> zoom s \<le> 3"

text \<open>The two operations that set the zoom, for sequences of direct calls.\<close>

datatype viewportOp = OpZoomAt point real | OpReset

fun applyOp :: "viewportOp \<Rightarrow> mapState \<Rightarrow> mapState" where
  "applyOp (OpZoomAt a f) s = zoomAt a f s"
| "applyOp OpReset s = handleResetZoom s"

fun applyOps :: "viewportOp list \<Rightarrow> mapState \<Rightarrow> mapState" where
  "applyOps [] s = s"
| "applyOps (op # ops) s = applyOps ops (applyOp op s)"

subsection \<open>Names for the properties of the tick\<close>

text \<open>A train updates the progress map when it is not manual and its path is resolved;
  \<open>storedProgress\<close> is \<open>prev[train.id] || 0\<close>; \<open>mappedTrains\<close> is the list that the outer
  updater of \<open>setAnimatedTrains\<close> returns.\<close>

definition updatesProgress :: "env \<Rightarrow> train \<Rightarrow> bool" where
  "updatesProgress e train \<longleftrightarrow> \<not> startsWithM (trainId train) \<and> resolveTrain e train \<noteq> None"

definition storedProgress :: "(string \<rightharpoonup> real) \<Rightarrow> string \<Rightarrow> real" where
  "storedProgress progress tid = (case progress tid of Some p \<Rightarrow> p | None \<Rightarrow> 0)"

definition mappedTrains :: "env \<Rightarrow> (nat \<Rightarrow> real \<times> real) \<Rightarrow> mapState \<Rightarrow> train list" where
  "mappedTrains e rnd s =
     map (\<lambda>(index, train). animateTrain e (trainProgress s) index train (rnd index))
       (zip [0 ..< length (animatedTrains s)] (animatedTrains s))"

subsection \<open>The same operations with the exceptions of JavaScript\<close>














subsection \<open>The geometric functions in the arithmetic of JavaScript numbers\<close>

text \<open>A JavaScript number is a binary64 double: each \<open>+\<close>, \<open>-\<close>, \<open>*\<close> and \<open>/\<close> returns its
  exact result rounded to the nearest double, ties to the even significand.
  \<open>roundDouble\<close> is that rounding on the reals (53 bits of significand, exponent at least
  \<open>-1022\<close>, so that small results are rounded as subnormal numbers are). It is \<open>None\<close>
  when the rounded result is beyond \<open>maxDouble\<close>, the largest double, where JavaScript
  gives an infinity: a computation in which a result overflows is outside this model
  (its value is \<open>None\<close>), and so are \<open>NaN\<close>, a division by zero (\<open>divideF\<close>) and the
  sign of zero. A decimal literal is the rounding of its value.

  The functions with an \<open>F\<close> are the source functions again with the rounding \<open>rnd\<close>
  applied to every arithmetic result, in the order in which the source computes them, and
  with \<open>Math.hypot\<close>, whose accuracy the language leaves open, as the parameter \<open>hyp\<close>;
  \<open>hypotDouble\<close> is the correctly rounded one. With no rounding (\<open>Some\<close>) and the exact
  norm they are the functions over the reals. \<open>worldToScreenF\<close> is the transform of the
  map layer evaluated in doubles. \<open>roundedPath\<close> is the path from \<open>(0.5, 0)\<close> to
  \<open>(0.1, 0)\<close>, the second abscissa being the double nearest to \<open>0.1\<close>.\<close>

definition roundHalfEven :: "real \<Rightarrow> int" where
  "roundHalfEven v =
     (let f = \<lfloor>v\<rfloor>;
          d = v - of_int f
      in if d < 1 / 2 then f else if 1 / 2 < d then f + 1 else if even f then f else f + 1)"

definition maxDouble :: real where
  "maxDouble = (2 ^ 53 - 1) * 2 ^ 971"

definition roundDouble :: "real \<Rightarrow> real option" where
  "roundDouble v =
     (if v = 0 then Some 0
      else
        (let e = max \<lfloor>log 2 \<bar>v\<bar>\<rfloor> (- 1022);
             ulp = 2 powi (e - 52);
             r = of_int (roundHalfEven (v / ulp)) * ulp
         in if \<bar>r\<bar> \<le> maxDouble then Some r else None))"

definition hypotDouble :: "real \<Rightarrow> real \<Rightarrow> real option" where
  "hypotDouble dx dy = roundDouble (hypot dx dy)"



definition divideF :: "(real \<Rightarrow> real option) \<Rightarrow> real \<Rightarrow> real \<Rightarrow> real option" where
  "divideF rnd a b = (if b = 0 then None else rnd (a / b))"

function lengthsLoopF :: "(real \<Rightarrow> real option) \<Rightarrow> (real \<Rightarrow> real \<Rightarrow> real option) \<Rightarrow> point list \<Rightarrow> nat
    \<Rightarrow> real list \<Rightarrow> real \<Rightarrow> (real list \<times> real) option" where
  "lengthsLoopF rnd hyp points i segmentLengths totalLen =
     (if i < length points - 1 then
        do {
          dx \<leftarrow> rnd (fst (points ! (i + 1)) - fst (points ! i));
          dy \<leftarrow> rnd (snd (points ! (i + 1)) - snd (points ! i));
          len \<leftarrow> hyp dx dy;
          nextTotal \<leftarrow> rnd (totalLen + len);
          lengthsLoopF rnd hyp points (i + 1) (segmentLengths @ [len]) nextTotal
        }
      else Some (segmentLengths, totalLen))"
  by pat_completeness auto
termination
  by (relation "measure (\<lambda>(rnd, hyp, points, i, segmentLengths, totalLen). length points - i)") auto

declare lengthsLoopF.simps [simp del]

function scanLoopF :: "(real \<Rightarrow> real option) \<Rightarrow> point list \<Rightarrow> real list \<Rightarrow> real \<Rightarrow> nat \<Rightarrow> real
    \<Rightarrow> (point \<times> point) option option" where
  "scanLoopF rnd points segmentLengths target i acc =
     (if i < length segmentLengths then
        do {
          nextAcc \<leftarrow> rnd (acc + segmentLengths ! i);
          if target \<le> nextAcc then
            do {
              localT \<leftarrow> (if segmentLengths ! i = 0 then Some 0
                         else do { d \<leftarrow> rnd (target - acc); divideF rnd d (segmentLengths ! i) });
              let p0 = points ! i;
              let p1 = points ! (i + 1);
              dx \<leftarrow> rnd (fst p1 - fst p0);
              mx \<leftarrow> rnd (dx * localT);
              x \<leftarrow> rnd (fst p0 + mx);
              dy \<leftarrow> rnd (snd p1 - snd p0);
              my \<leftarrow> rnd (dy * localT);
              y \<leftarrow> rnd (snd p0 + my);
              tx \<leftarrow> rnd (fst p1 - fst p0);
              ty \<leftarrow> rnd (snd p1 - snd p0);
              Some (Some ((x, y), (tx, ty)))
            }
          else scanLoopF rnd points segmentLengths target (i + 1) nextAcc
        }
      else Some None)"
  by pat_completeness auto
termination
  by (relation "measure (\<lambda>(rnd, points, segmentLengths, target, i, acc). length segmentLengths - i)") auto

declare scanLoopF.simps [simp del]

definition getPointAlongPathF :: "(real \<Rightarrow> real option) \<Rightarrow> (real \<Rightarrow> real \<Rightarrow> real option) \<Rightarrow> point list \<Rightarrow> real
    \<Rightarrow> (point \<times> point) option" where
  "getPointAlongPathF rnd hyp points progress =
     (if length points = 0 then Some ((0, 0), (1, 0))
      else if length points = 1 then Some (points ! 0, (1, 0))
      else
        do {
          (segmentLengths, totalLen) \<leftarrow> lengthsLoopF rnd hyp points 0 [] 0;
          if totalLen = 0 then Some (points ! 0, (1, 0))
          else
            do {
              target \<leftarrow> rnd (max 0 (min 1 progress) * totalLen);
              found \<leftarrow> scanLoopF rnd points segmentLengths target 0 0;
              case found of
                Some r \<Rightarrow> Some r
              | None \<Rightarrow>
                  do {
                    let lastPt = points ! (length points - 1);
                    let prev = points ! (length points - 2);
                    tx \<leftarrow> rnd (fst lastPt - fst prev);
                    ty \<leftarrow> rnd (snd lastPt - snd prev);
                    Some (lastPt, (tx, ty))
                  }
            }
        })"










definition roundedPath :: "point list" where
  "roundedPath = [(1 / 2, 0), (3602879701896397 / 36028797018963968, 0)]"

subsection \<open>Example runs\<close>

text \<open>Surroundings with a container of 800 by 600 at the origin and no lines; the state
  after a pan that moved 16 pixels in 16 ms and was released (velocity \<open>(1, 0)\<close>, one
  inertia frame pending); and that state with place mode switched on.\<close>

definition bareEnv :: env where
  "bareEnv = \<lparr>container = Some (0, 0, 800, 600), realLines = [], stations = [], trainRoutes = Map.empty\<rparr>"

definition released :: mapState where
  "released = run [(bareEnv, MouseDown 0 0 False [] 0), (bareEnv, MouseMove 16 0 16), (bareEnv, MouseUp)]
     (initialState [] Map.empty)"




text \<open>The three stations of the mock data with the routes the component builds for the
  trains \<open>T001\<close> and \<open>T002\<close>, and a list of trains with a manual one.\<close>

definition exampleEnv :: env where
  "exampleEnv =
     \<lparr>container = Some (0, 0, 800, 600), realLines = [],
      stations = [\<lparr>stationId = ''ST001'', stationPos = (400, 300)\<rparr>,
                  \<lparr>stationId = ''ST002'', stationPos = (350, 250)\<rparr>,
                  \<lparr>stationId = ''ST003'', stationPos = (450, 350)\<rparr>],
      trainRoutes = [''T002'' \<mapsto> [''ST001'', ''ST002'', ''ST003'', ''ST001''],
                     ''T001'' \<mapsto> [''ST002'', ''ST003'', ''ST001'', ''ST002'']]\<rparr>"

definition exampleTrains :: "train list" where
  "exampleTrains =
     [\<lparr>trainId = ''T002'', trainType = Express, currentStation = ''ST001'', nextStation = ''ST003'',
       speed = 110, maxSpeed = 130, delay = 0, route = [''ST001'', ''ST003''], position = (400, 300)\<rparr>,
      \<lparr>trainId = ''T001'', trainType = Express, currentStation = ''ST002'', nextStation = ''ST001'',
       speed = 120, maxSpeed = 140, delay = 0, route = [''ST002'', ''ST001''], position = (10, 20)\<rparr>,
      \<lparr>trainId = ''M17'', trainType = Express, currentStation = ''ST001'', nextStation = ''ST002'',
       speed = 0, maxSpeed = 120, delay = 0, route = [], position = (5, 5)\<rparr>]"

definition exampleState :: mapState where
  "exampleState = initialState exampleTrains [''T002'' \<mapsto> 99 / 100, ''T001'' \<mapsto> 1 / 2, ''M17'' \<mapsto> 1 / 4]"

section \<open>Properties\<close>

subsection \<open>Geometry: lengths and the scan\<close>

lemma hypot_nonneg: "0 \<le> hypot a b"
  by (simp add: hypot_def)

lemma hypot_eq_0: "hypot a b = 0 \<longleftrightarrow> a = 0 \<and> b = 0"
  by (simp add: hypot_def)

lemma hypot_axis1: "hypot a 0 = \<bar>a\<bar>"
  by (simp add: hypot_def)


lemma lengthsLoop_eq:
  "lengthsLoop points i sl t =
     (sl @ map (segLen points) [i ..< length points - 1],
      t + sum_list (map (segLen points) [i ..< length points - 1]))"
proof (induction points i sl t rule: lengthsLoop.induct)
  case (1 points i sl t)
  show ?case
  proof (cases "i < length points - 1")
    case True
    then have "[i ..< length points - 1] = i # [i + 1 ..< length points - 1]"
      by (simp add: upt_conv_Cons)
    with True 1 show ?thesis
      by (subst lengthsLoop.simps) (simp add: Let_def flip: segLen_def)
  next
    case False
    then show ?thesis by (subst lengthsLoop.simps) simp
  qed
qed

lemma cumLen_Suc: "k < length lens \<Longrightarrow> cumLen lens (Suc k) = cumLen lens k + lens ! k"
  by (simp add: cumLen_def take_Suc_conv_app_nth)

lemma scanLoop_first:
  assumes "i < length lens" and "acc = cumLen lens i" and "target \<le> cumLen lens (length lens)"
  shows "\<exists>k. i \<le> k \<and> k < length lens \<and> target \<le> cumLen lens (Suc k) \<and>
             (\<forall>j. i \<le> j \<and> j < k \<longrightarrow> cumLen lens (Suc j) < target) \<and>
             scanLoop points lens target i acc = Some (interpolateAt points lens target k)"
  using assms
proof (induction points lens target i acc rule: scanLoop.induct)
  case (1 points lens target i acc)
  have nextAcc: "acc + lens ! i = cumLen lens (Suc i)"
    using 1 by (simp add: cumLen_Suc)
  show ?case
  proof (cases "target \<le> acc + lens ! i")
    case True
    have "scanLoop points lens target i acc = Some (interpolateAt points lens target i)"
      using True 1(2,3) by (subst scanLoop.simps) (simp add: Let_def interpolateAt_def)
    with True nextAcc 1(2) show ?thesis
      by (intro exI [of _ i]) auto
  next
    case False
    have less: "Suc i < length lens"
    proof (rule ccontr)
      assume "\<not> Suc i < length lens"
      with 1(2) have "Suc i = length lens" by simp
      with False nextAcc 1(4) show False by simp
    qed
    from 1(1) [OF 1(2) refl False] less nextAcc 1(4)
    obtain k where k: "Suc i \<le> k" "k < length lens" "target \<le> cumLen lens (Suc k)"
      "\<forall>j. Suc i \<le> j \<and> j < k \<longrightarrow> cumLen lens (Suc j) < target"
      "scanLoop points lens target (i + 1) (acc + lens ! i) = Some (interpolateAt points lens target k)"
      by auto
    have "scanLoop points lens target i acc = Some (interpolateAt points lens target k)"
      using False 1(2) k(5) by (subst scanLoop.simps) (simp add: Let_def)
    moreover have "\<forall>j. i \<le> j \<and> j < k \<longrightarrow> cumLen lens (Suc j) < target"
    proof (intro allI impI)
      fix j assume j: "i \<le> j \<and> j < k"
      show "cumLen lens (Suc j) < target"
      proof (cases "j = i")
        case True
        with False nextAcc show ?thesis by simp
      next
        case False
        with j k(4) show ?thesis by simp
      qed
    qed
    ultimately show ?thesis
      using k(1,2,3) by (intro exI [of _ k]) auto
  qed
qed

lemma segmentLengthsOf_eq: "segmentLengthsOf points = map (segLen points) [0 ..< length points - 1]"
  by (simp add: segmentLengthsOf_def lengthsLoop_eq)

lemma pathTotal_eq: "pathTotal points = cumLen (segmentLengthsOf points) (length (segmentLengthsOf points))"
  by (simp add: pathTotal_def segmentLengthsOf_def lengthsLoop_eq cumLen_def)

lemma length_segmentLengthsOf: "length (segmentLengthsOf points) = length points - 1"
  by (simp add: segmentLengthsOf_eq)

lemma segmentLengthsOf_nth: "Suc k < length points \<Longrightarrow> segmentLengthsOf points ! k = segLen points k"
  by (simp add: segmentLengthsOf_eq)

lemma pathTotal_pos_length: "0 < pathTotal points \<Longrightarrow> 2 \<le> length points"
proof (rule ccontr)
  assume pos: "0 < pathTotal points" and "\<not> 2 \<le> length points"
  then have "length points - 1 = 0" by simp
  then have "pathTotal points = 0"
    by (simp add: pathTotal_def lengthsLoop_eq)
  with pos show False by simp
qed

lemma getPointAlongPath_scan:
  assumes "0 < pathTotal points"
  shows "\<exists>k. Suc k < length points \<and>
           max 0 (min 1 progress) * pathTotal points \<le> cumLen (segmentLengthsOf points) (Suc k) \<and>
           (\<forall>j<k. cumLen (segmentLengthsOf points) (Suc j) < max 0 (min 1 progress) * pathTotal points) \<and>
           getPointAlongPath points progress =
             interpolateAt points (segmentLengthsOf points) (max 0 (min 1 progress) * pathTotal points) k"
proof -
  let ?lens = "segmentLengthsOf points"
  let ?target = "max 0 (min 1 progress) * pathTotal points"
  from assms have len: "2 \<le> length points" by (rule pathTotal_pos_length)
  then have i: "0 < length ?lens" by (simp add: length_segmentLengthsOf)
  have "max 0 (min 1 progress) \<le> 1" by simp
  with assms have "?target \<le> 1 * pathTotal points"
    by (intro mult_right_mono) simp_all
  then have le: "?target \<le> cumLen ?lens (length ?lens)"
    by (simp add: pathTotal_eq [symmetric])
  have "0 = cumLen ?lens 0" by (simp add: cumLen_def)
  from scanLoop_first [OF i this le, of points]
  obtain k where k: "k < length ?lens" "?target \<le> cumLen ?lens (Suc k)"
      "\<forall>j. 0 \<le> j \<and> j < k \<longrightarrow> cumLen ?lens (Suc j) < ?target"
      "scanLoop points ?lens ?target 0 0 = Some (interpolateAt points ?lens ?target k)"
    by auto
  have split: "lengthsLoop points 0 [] 0 = (?lens, pathTotal points)"
    by (simp add: segmentLengthsOf_def pathTotal_def)
  have "getPointAlongPath points progress = interpolateAt points ?lens ?target k"
  proof -
    from len have "points \<noteq> []" "length points \<noteq> 1" by auto
    with assms k(4) show ?thesis
      unfolding getPointAlongPath_def split by (simp add: Let_def)
  qed
  with k(1,2,3) show ?thesis
    by (intro exI [of _ k]) (simp add: length_segmentLengthsOf)
qed

lemma segmentLengthsOf_nonneg: "x \<in> set (segmentLengthsOf points) \<Longrightarrow> 0 \<le> x"
  by (auto simp: segmentLengthsOf_eq segLen_def hypot_nonneg)

lemma cumLen_nonneg: "0 \<le> cumLen (segmentLengthsOf points) k"
  unfolding cumLen_def
  by (rule sum_list_nonneg) (auto dest: in_set_takeD segmentLengthsOf_nonneg)

lemma cumLen_split: "cumLen lens (length lens) = cumLen lens k + sum_list (drop k lens)"
proof -
  have "sum_list lens = sum_list (take k lens @ drop k lens)" by simp
  also have "\<dots> = sum_list (take k lens) + sum_list (drop k lens)" by (simp only: sum_list_append)
  finally show ?thesis by (simp add: cumLen_def)
qed

lemma segLen_zero_same: "segLen points j = 0 \<Longrightarrow> points ! Suc j = points ! j"
  by (simp add: segLen_def hypot_eq_0 prod_eq_iff)

lemma getPointAlongPath_start:
  assumes "0 < pathTotal points"
  shows "fst (getPointAlongPath points 0) = points ! 0"
proof -
  let ?lens = "segmentLengthsOf points"
  from getPointAlongPath_scan [OF assms, of 0]
  obtain k where k: "\<forall>j<k. cumLen ?lens (Suc j) < 0"
      "getPointAlongPath points 0 = interpolateAt points ?lens 0 k"
    by auto
  have "k = 0"
  proof (rule ccontr)
    assume "k \<noteq> 0"
    with k(1) have "cumLen ?lens (Suc 0) < 0" by simp
    with cumLen_nonneg [of points "Suc 0"] show False by simp
  qed
  with k(2) show ?thesis
    by (simp add: interpolateAt_def cumLen_def Let_def)
qed

lemma getPointAlongPath_end:
  assumes "0 < pathTotal points"
  shows "fst (getPointAlongPath points 1) = points ! (length points - 1)"
proof -
  let ?lens = "segmentLengthsOf points"
  let ?total = "pathTotal points"
  from getPointAlongPath_scan [OF assms, of 1]
  obtain k where k: "Suc k < length points" "?total \<le> cumLen ?lens (Suc k)"
      "\<forall>j<k. cumLen ?lens (Suc j) < ?total"
      "getPointAlongPath points 1 = interpolateAt points ?lens ?total k"
    by auto
  from k(1) have klen: "k < length ?lens" by (simp add: length_segmentLengthsOf)
  have rest_nonneg: "0 \<le> sum_list (drop (Suc k) ?lens)"
    by (rule sum_list_nonneg) (auto dest: in_set_dropD segmentLengthsOf_nonneg)
  have total: "?total = cumLen ?lens (Suc k) + sum_list (drop (Suc k) ?lens)"
    unfolding pathTotal_eq by (rule cumLen_split)
  with k(2) rest_nonneg have rest0: "sum_list (drop (Suc k) ?lens) = 0" by simp
  with total have total_k: "?total = cumLen ?lens k + ?lens ! k"
    using klen by (simp add: cumLen_Suc)
  have nz: "?lens ! k \<noteq> 0"
  proof
    assume z: "?lens ! k = 0"
    show False
    proof (cases k)
      case 0
      with z total_k assms show False by (simp add: cumLen_def)
    next
      case (Suc m)
      with k(3) have "cumLen ?lens (Suc m) < ?total" by simp
      with Suc z total_k show False by simp
    qed
  qed
  have pos: "fst (getPointAlongPath points 1) = points ! Suc k"
    using nz total_k by (simp add: k(4) interpolateAt_def Let_def prod_eq_iff)
  have zero: "\<forall>x \<in> set (drop (Suc k) ?lens). x = 0"
  proof -
    have "\<forall>x \<in> set (drop (Suc k) ?lens). 0 \<le> x"
      by (auto dest: in_set_dropD segmentLengthsOf_nonneg)
    with rest0 show ?thesis
      by (simp add: sum_list_nonneg_eq_0_iff)
  qed
  have same: "Suc k \<le> j \<Longrightarrow> j < length points \<Longrightarrow> points ! j = points ! Suc k" for j
  proof (induction j)
    case 0
    then show ?case by simp
  next
    case (Suc j)
    show ?case
    proof (cases "j = k")
      case True
      then show ?thesis by simp
    next
      case False
      with Suc.prems have j: "Suc k \<le> j" "j < length ?lens"
        by (simp_all add: length_segmentLengthsOf)
      then have "?lens ! j \<in> set (drop (Suc k) ?lens)"
        by (auto simp: in_set_conv_nth intro!: exI [of _ "j - Suc k"])
      with zero have "?lens ! j = 0" by blast
      with Suc.prems have "segLen points j = 0"
        by (simp add: segmentLengthsOf_nth)
      then have "points ! Suc j = points ! j" by (rule segLen_zero_same)
      with Suc.IH j(1) Suc.prems show ?thesis by simp
    qed
  qed
  from k(1) have "points ! (length points - 1) = points ! Suc k"
    by (intro same) simp_all
  with pos show ?thesis by simp
qed

subsection \<open>Rounding to a double\<close>

lemma floor_log2_eq:
  assumes "2 powi e \<le> v" and "v < 2 powi (e + 1)"
  shows "\<lfloor>log 2 v\<rfloor> = e"
proof -
  have pos: "0 < v"
    using assms(1) by (rule less_le_trans [rotated]) simp
  have "of_int e \<le> log 2 v"
    using pos assms(1) by (simp add: le_log_iff powr_real_of_int')
  moreover have "log 2 v < of_int (e + 1)"
  proof -
    have "(2 :: real) powr real_of_int (e + 1) = 2 powi (e + 1)"
      by (rule powr_real_of_int') simp_all
    with assms(2) have "v < 2 powr real_of_int (e + 1)" by simp
    with pos show ?thesis by (simp only: log_less_iff)
  qed
  ultimately show ?thesis by linarith
qed

lemma roundHalfEven_cases: "roundHalfEven x = \<lfloor>x\<rfloor> \<or> roundHalfEven x = \<lfloor>x\<rfloor> + 1"
  by (simp add: roundHalfEven_def Let_def)

lemma roundHalfEven_bound:
  assumes "\<bar>x\<bar> < 2 ^ 53"
  shows "\<bar>real_of_int (roundHalfEven x)\<bar> \<le> 2 ^ 53"
proof -
  from assms have x: "real_of_int (- (2 ^ 53)) \<le> x" "x < real_of_int (2 ^ 53)" by simp_all
  from x(1) have lo: "- (2 ^ 53) \<le> \<lfloor>x\<rfloor>" by (simp only: le_floor_iff)
  from x(2) have hi: "\<lfloor>x\<rfloor> < 2 ^ 53" by (simp only: floor_less_iff)
  from lo hi roundHalfEven_cases [of x] have "\<bar>roundHalfEven x\<bar> \<le> 2 ^ 53" by arith
  then have "real_of_int \<bar>roundHalfEven x\<bar> \<le> real_of_int (2 ^ 53)" by (simp only: of_int_le_iff)
  then show ?thesis by simp
qed

lemma roundDouble_eval:
  assumes "2 powi e \<le> \<bar>v\<bar>" and "\<bar>v\<bar> < 2 powi (e + 1)" and "- 1022 \<le> e" and "e \<le> 1022"
  shows "roundDouble v = Some (of_int (roundHalfEven (v / 2 powi (e - 52))) * 2 powi (e - 52))"
proof -
  let ?ulp = "(2 :: real) powi (e - 52)"
  have "0 < \<bar>v\<bar>"
    using assms(1) by (rule less_le_trans [rotated]) simp
  then have nz: "v \<noteq> 0" by simp
  have ulp: "0 < ?ulp" by simp
  have split: "(2 :: real) powi (e + 1) = 2 ^ 53 * ?ulp"
  proof -
    have ee: "e + 1 = 53 + (e - 52)" by simp
    have "(2 :: real) powi (e + 1) = 2 powi (53 + (e - 52))" by (subst ee) (rule refl)
    also have "\<dots> = 2 powi 53 * ?ulp" by (rule power_int_add) simp
    finally show ?thesis by simp
  qed
  have "\<bar>v / ?ulp\<bar> = \<bar>v\<bar> / ?ulp" by simp
  also have "\<dots> < 2 ^ 53"
    using assms(2) ulp unfolding split by (simp add: divide_less_eq)
  finally have "\<bar>real_of_int (roundHalfEven (v / ?ulp))\<bar> \<le> 2 ^ 53"
    by (rule roundHalfEven_bound)
  then have "\<bar>of_int (roundHalfEven (v / ?ulp)) * ?ulp\<bar> \<le> 2 ^ 53 * ?ulp"
    using ulp by (simp add: abs_mult)
  also have "\<dots> = 2 powi (e + 1)" by (simp only: split)
  also have "\<dots> \<le> 2 powi 1023"
    using assms(4) by (intro power_int_increasing) simp_all
  also have "\<dots> \<le> maxDouble"
    by (simp add: maxDouble_def)
  finally have fin: "\<bar>of_int (roundHalfEven (v / ?ulp)) * ?ulp\<bar> \<le> maxDouble" .
  from floor_log2_eq [OF assms(1,2)] assms(3) nz fin show ?thesis
    by (simp add: roundDouble_def Let_def max_def)
qed


lemma roundDouble_0: "roundDouble 0 = Some 0"
  by (simp add: roundDouble_def)

lemma roundHalfEven_nonneg: "0 \<le> v \<Longrightarrow> 0 \<le> roundHalfEven v"
  by (simp add: roundHalfEven_def Let_def)

lemma roundDouble_nonneg: "0 \<le> v \<Longrightarrow> roundDouble v = Some w \<Longrightarrow> 0 \<le> w"
  by (auto simp: roundDouble_def Let_def roundHalfEven_nonneg split: if_splits)

lemma hypotDouble_nonneg: "hypotDouble dx dy = Some l \<Longrightarrow> 0 \<le> l"
  unfolding hypotDouble_def by (rule roundDouble_nonneg [OF hypot_nonneg])

lemmas roundDouble_at = roundDouble_eval [of "- 4"] roundDouble_eval [of "- 2"] roundDouble_eval [of "- 1"]
  roundDouble_eval [of 0]

lemma rounded_inputs:
  "roundDouble (1 / 2) = Some (1 / 2) \<and>
   roundDouble (3602879701896397 / 36028797018963968) = Some (3602879701896397 / 36028797018963968)"
  by (simp add: roundDouble_at roundHalfEven_def power_int_minus)













subsection \<open>Nearest-point projection\<close>
































subsection \<open>Anchored zoom\<close>

lemma zoomAt_zoom: "zoom (zoomAt a f s) = max (3 / 10) (min 3 (zoom s * f))"
  by (simp add: zoomAt_def Let_def)

















subsection \<open>The zoom stays within its bounds\<close>

lemma zoom_requestAnimationFrame: "zoom (requestAnimationFrame v s) = zoom s"
  by (simp add: requestAnimationFrame_def)

lemma zoom_inertiaStep: "zoom (inertiaStep v s) = zoom s"
  by (simp add: inertiaStep_def Let_def zoom_requestAnimationFrame)

lemma zoom_foldl_inertiaStep: "zoom (foldl (\<lambda>st f. inertiaStep (snd f) st) s fs) = zoom s"
  by (induction fs arbitrary: s) (simp_all add: zoom_inertiaStep)

lemma zoom_animationFrame: "zoom (animationFrame s) = zoom s"
  by (simp add: animationFrame_def zoom_foldl_inertiaStep)

lemma zoom_startInertia: "zoom (startInertia s) = zoom s"
  by (simp add: startInertia_def Let_def zoom_requestAnimationFrame)

lemma zoom_startPan: "zoom (startPan x y now s) = zoom s"
  by (simp add: startPan_def Let_def cancelAnimationFrame_def split: option.split)

lemma zoom_handleMouseDown: "zoom (handleMouseDown e x y c d now s) = zoom s"
  by (simp add: handleMouseDown_def Let_def zoom_startPan)

lemma zoom_trainMouseDown: "zoom (trainMouseDown e tid x y c d now s) = zoom s"
  by (simp add: trainMouseDown_def zoom_handleMouseDown)

lemma zoom_dragTrain: "zoom (dragTrain e tid coords s) = zoom s"
  by (simp add: dragTrain_def Let_def split: option.split)

lemma zoom_trackVelocity: "zoom (trackVelocity x y now s) = zoom s"
  by (simp add: trackVelocity_def Let_def split: option.split)

lemma zoom_handleMouseMove: "zoom (handleMouseMove e x y now s) = zoom s"
  by (simp add: handleMouseMove_def zoom_dragTrain zoom_trackVelocity split: option.split)

lemma zoom_handleMouseUp: "zoom (handleMouseUp s) = zoom s"
  by (simp add: handleMouseUp_def zoom_startInertia)

lemma zoom_handleTouchEnd: "zoom (handleTouchEnd s) = zoom s"
  by (simp add: handleTouchEnd_def zoom_startInertia)

lemma zoom_handleTouchStart: "zoom (handleTouchStart e touches now s) = zoom s"
  by (simp add: handleTouchStart_def Let_def zoom_startPan)

lemma zoom_tick: "zoom (tick e rnd eager s) = zoom s"
  by (simp add: tick_def Let_def split: prod.split)

lemma zoomInBounds_same: "zoom s' = zoom s \<Longrightarrow> zoomInBounds s \<Longrightarrow> zoomInBounds s'"
  by (simp add: zoomInBounds_def)

lemma zoomInBounds_zoomAt: "zoomInBounds (zoomAt a f s)"
  unfolding zoomInBounds_def zoomAt_zoom by simp

lemma zoomInBounds_handleTouchMove:
  assumes "zoomInBounds s"
  shows "zoomInBounds (handleTouchMove e touches now s)"
proof (cases "isPinching s \<and> length touches = 2")
  case True
  then obtain c f where "zoom (handleTouchMove e touches now s) = zoom (zoomAt c f s)"
    by (simp add: handleTouchMove_def Let_def)
  then show ?thesis by (rule zoomInBounds_same) (rule zoomInBounds_zoomAt)
next
  case False
  then have "zoom (handleTouchMove e touches now s) = zoom s"
    by (auto simp: handleTouchMove_def Let_def zoom_trackVelocity zoom_dragTrain split: option.split)
  then show ?thesis using assms by (rule zoomInBounds_same)
qed

lemma zoomInBounds_handleZoomIn:
  assumes "zoomInBounds s"
  shows "zoomInBounds (handleZoomIn e s)"
proof (cases "container e")
  case None
  with assms show ?thesis by (simp add: handleZoomIn_def zoomInBounds_def)
next
  case (Some rect)
  then show ?thesis by (simp add: handleZoomIn_def zoomInBounds_zoomAt split: prod.split)
qed

lemma zoomInBounds_handleZoomOut:
  assumes "zoomInBounds s"
  shows "zoomInBounds (handleZoomOut e s)"
proof (cases "container e")
  case None
  with assms show ?thesis by (simp add: handleZoomOut_def zoomInBounds_def)
next
  case (Some rect)
  then show ?thesis by (simp add: handleZoomOut_def zoomInBounds_zoomAt split: prod.split)
qed

lemma zoomInBounds_dispatch:
  assumes "zoomInBounds s"
  shows "zoomInBounds (dispatch e ev s)"
proof (cases ev)
  case (TouchMove touches now)
  with zoomInBounds_handleTouchMove [OF assms] show ?thesis by simp
next
  case ZoomInClick
  with zoomInBounds_handleZoomIn [OF assms] show ?thesis by simp
next
  case ZoomOutClick
  with zoomInBounds_handleZoomOut [OF assms] show ?thesis by simp
next
  case (Wheel x y d)
  then show ?thesis by (simp add: handleWheel_def Let_def zoomInBounds_zoomAt)
next
  case (DoubleClick x y)
  then show ?thesis by (simp add: handleDoubleClick_def zoomInBounds_zoomAt)
next
  case ResetZoomClick
  then show ?thesis by (simp add: handleResetZoom_def zoomInBounds_def)
next
  case (MouseDown x y c d now)
  then show ?thesis using assms by (auto intro: zoomInBounds_same simp: zoom_handleMouseDown)
next
  case (TrainMouseDown tid x y c d now)
  then show ?thesis using assms by (auto intro: zoomInBounds_same simp: zoom_trainMouseDown)
next
  case (MouseMove x y now)
  then show ?thesis using assms by (auto intro: zoomInBounds_same simp: zoom_handleMouseMove)
next
  case MouseUp
  then show ?thesis using assms by (auto intro: zoomInBounds_same simp: zoom_handleMouseUp)
next
  case (TouchStart touches now)
  then show ?thesis using assms by (auto intro: zoomInBounds_same simp: zoom_handleTouchStart)
next
  case TouchEnd
  then show ?thesis using assms by (auto intro: zoomInBounds_same simp: zoom_handleTouchEnd)
next
  case PlaceModeClick
  then show ?thesis using assms by (simp add: zoomInBounds_def)
next
  case AnimationFrame
  then show ?thesis using assms by (auto intro: zoomInBounds_same simp: zoom_animationFrame)
next
  case (Tick eager rnd)
  then show ?thesis using assms by (auto intro: zoomInBounds_same simp: zoom_tick)
qed

lemma zoomInBounds_run:
  assumes "zoomInBounds s"
  shows "zoomInBounds (run evs s)"
  using assms
proof (induction evs arbitrary: s)
  case Nil
  then show ?case by simp
next
  case (Cons a evs)
  obtain e ev where a: "a = (e, ev)" by (cases a)
  from Cons.prems have "zoomInBounds (dispatch e ev s)"
    by (rule zoomInBounds_dispatch)
  then show ?case unfolding a run.simps by (rule Cons.IH)
qed

lemma zoomInBounds_applyOps:
  assumes "zoomInBounds s"
  shows "zoomInBounds (applyOps ops s)"
  using assms
proof (induction ops arbitrary: s)
  case Nil
  then show ?case by simp
next
  case (Cons op ops)
  have "zoomInBounds (applyOp op s)"
  proof (cases op)
    case (OpZoomAt a f)
    then show ?thesis by (simp add: zoomInBounds_zoomAt)
  next
    case OpReset
    then show ?thesis by (simp add: handleResetZoom_def zoomInBounds_def)
  qed
  then show ?case unfolding applyOps.simps by (rule Cons.IH)
qed

text \<open>
  Claim C3. From the initial state (zoom \<open>1\<close>), after every finite sequence of
  \<open>zoomAt\<close> calls with any anchor and factor and of resets, and after every finite
  sequence of events of the component (wheel, double click, pinch, the zoom buttons with
  or without a container, reset, and all the others), the zoom lies in \<open>[0.3, 3]\<close>.
\<close>

theorem zoom_within_bounds:
  "3 / 10 \<le> zoom (applyOps ops (initialState trains progress)) \<and>
   zoom (applyOps ops (initialState trains progress)) \<le> 3 \<and>
   3 / 10 \<le> zoom (run evs (initialState trains progress)) \<and>
   zoom (run evs (initialState trains progress)) \<le> 3"
proof -
  have init: "zoomInBounds (initialState trains progress)"
    by (simp add: zoomInBounds_def initialState_def)
  then have "zoomInBounds (run evs (initialState trains progress))"
    by (rule zoomInBounds_run)
  moreover from init have "zoomInBounds (applyOps ops (initialState trains progress))"
    by (rule zoomInBounds_applyOps)
  ultimately show ?thesis by (simp only: zoomInBounds_def)
qed

theorem zoom_within_bounds_witness:
  "3 / 10 \<le> zoom (applyOps [OpZoomAt (100, 100) 50, OpReset, OpZoomAt (0, 0) (- 2)] (initialState [] Map.empty)) \<and>
   zoom (applyOps [OpZoomAt (100, 100) 50, OpReset, OpZoomAt (0, 0) (- 2)] (initialState [] Map.empty)) \<le> 3 \<and>
   3 / 10 \<le> zoom (run [(\<lparr>container = None, realLines = [], stations = [], trainRoutes = Map.empty\<rparr>, ZoomOutClick)]
     (initialState [] Map.empty)) \<and>
   zoom (run [(\<lparr>container = None, realLines = [], stations = [], trainRoutes = Map.empty\<rparr>, ZoomOutClick)]
     (initialState [] Map.empty)) \<le> 3"
  by (rule zoom_within_bounds)

subsection \<open>Inertia and its cancellation\<close>

lemma released_eq:
  "released = (initialState [] Map.empty)
     \<lparr>pan := (16, 0), isDragging := False, dragStart := (0, 0), lastMove := Some (16, 0, 16),
      velocity := (1, 0), inertiaAnim := Some 1, frames := [(1, (1, 0))], nextHandle := 2\<rparr>"
  by (simp add: released_def initialState_def handleMouseDown_def startPan_def handleMouseMove_def
      grabbedTrain_def trackVelocity_def handleMouseUp_def startInertia_def requestAnimationFrame_def
      hypot_axis1 Let_def)

lemma animationFrame_single:
  assumes "frames s = [(h, (1, 0))]"
  shows "animationFrame s =
     s\<lparr>pan := (fst (pan s) + 16, snd (pan s)), velocity := (95 / 100, 0),
       frames := [(nextHandle s, (1, 0))], inertiaAnim := Some (nextHandle s),
       nextHandle := nextHandle s + 1\<rparr>"
  using assms
  by (simp add: animationFrame_def inertiaStep_def requestAnimationFrame_def hypot_axis1 Let_def)

lemma frames_forever:
  assumes "frames s = [(h, (1, 0))]"
  shows "velocity (run (replicate (Suc n) (e, AnimationFrame)) s) = (95 / 100, 0) \<and>
         inertiaAnim (run (replicate (Suc n) (e, AnimationFrame)) s) \<noteq> None \<and>
         (\<exists>h'. frames (run (replicate (Suc n) (e, AnimationFrame)) s) = [(h', (1, 0))]) \<and>
         pan (run (replicate (Suc n) (e, AnimationFrame)) s) = (fst (pan s) + 16 * real (Suc n), snd (pan s))"
  using assms
proof (induction n arbitrary: s h)
  case 0
  then show ?case by (simp add: animationFrame_single)
next
  case (Suc n)
  let ?s' = "animationFrame s"
  from Suc.prems have fr: "frames ?s' = [(nextHandle s, (1, 0))]"
    by (simp add: animationFrame_single)
  have pan': "pan ?s' = (fst (pan s) + 16, snd (pan s))"
    using Suc.prems by (simp add: animationFrame_single)
  have unfold: "run (replicate (Suc (Suc n)) (e, AnimationFrame)) s = run (replicate (Suc n) (e, AnimationFrame)) ?s'"
    by simp
  from Suc.IH [OF fr] show ?case
    unfolding unfold pan' by (simp add: algebra_simps)
qed


text \<open>
  Claim C4. After a release with velocity \<open>v0\<close> above the threshold, each inertia tick
  should add the velocity times 16 ms to the pan and multiply the stored velocity by
  \<open>0.95\<close>, so that the stored velocity after \<open>n\<close> ticks is \<open>v0 * 0.95 ^ n\<close> and the animation
  stops. The closure \<open>step\<close> multiplies the captured release velocity instead of the
  stored one: after a release with velocity \<open>(1, 0)\<close> the stored velocity is \<open>(0.95, 0)\<close>
  after every tick (not \<open>0.9025\<close> after two), the pan grows by 16 per tick, and a next
  frame is always requested.
\<close>

theorem inertia_never_decays:
  "velocity (run (replicate (Suc n) (bareEnv, AnimationFrame)) released) = (95 / 100, 0) \<and>
   inertiaAnim (run (replicate (Suc n) (bareEnv, AnimationFrame)) released) \<noteq> None \<and>
   pan (run (replicate (Suc n) (bareEnv, AnimationFrame)) released) = (16 + 16 * real (Suc n), 0) \<and>
   velocity released = (1, 0) \<and>
   velocity (run (replicate 2 (bareEnv, AnimationFrame)) released) \<noteq> (1 * (95 / 100) ^ 2, 0)"
proof -
  have fr: "frames released = [(1, (1, 0))]" and p: "pan released = (16, 0)"
    and v: "velocity released = (1, 0)"
    by (simp_all add: released_eq)
  have two: "replicate 2 (bareEnv, AnimationFrame) = replicate (Suc 1) (bareEnv, AnimationFrame)"
    by (simp add: numeral_2_eq_2)
  from frames_forever [OF fr, of n bareEnv] frames_forever [OF fr, of 1 bareEnv] p v show ?thesis
    unfolding two by (simp add: power2_eq_square)
qed







subsection \<open>The animation tick\<close>

lemma advanceStation_length: "length (advanceStation tid a b trains) = length trains"
  by (simp add: advanceStation_def)

lemma advanceStation_ids: "map trainId (advanceStation tid a b trains) = map trainId trains"
  by (simp add: advanceStation_def)

lemma advanceStation_nth:
  "m < length trains \<Longrightarrow>
   advanceStation tid a b trains ! m =
     (if trainId (trains ! m) = tid then (trains ! m)\<lparr>currentStation := a, nextStation := b\<rparr> else trains ! m)"
  by (simp add: advanceStation_def)

lemma updateProgress_other: "tid' \<noteq> tid \<Longrightarrow> fst (updateProgress tid inc prev) tid' = prev tid'"
  by (simp add: updateProgress_def Let_def)

lemma progressPass_skip:
  "\<not> updatesProgress e train \<Longrightarrow>
   progressPass e rnd eager ((index, train) # rest) progress trains = progressPass e rnd eager rest progress trains"
  by (cases "resolveTrain e train") (auto simp: updatesProgress_def)

lemma progressPass_update:
  assumes "\<not> startsWithM (trainId train)"
    and "resolveTrain e train = Some (trainRoute, nextStationIndex, nextStationId, pathPoints)"
  shows "progressPass e rnd eager ((index, train) # rest) progress trains =
     progressPass e rnd False rest
       (fst (updateProgress (trainId train) (progressIncrementOf (newSpeedOf train (rnd index)) (delay train)) progress))
       (if snd (updateProgress (trainId train) (progressIncrementOf (newSpeedOf train (rnd index)) (delay train)) progress)
             \<and> \<not> eager
        then advanceStation (trainId train) nextStationId
               (trainRoute ! ((nextStationIndex + 1) mod length trainRoute)) trains
        else trains)"
  using assms by (simp add: Let_def split: prod.split)

lemma progressPass_deferred:
  assumes "\<not> startsWithM (trainId train)"
    and "resolveTrain e train = Some (trainRoute, nextStationIndex, nextStationId, pathPoints)"
  shows "progressPass e rnd False ((index, train) # rest) progress trains =
     progressPass e rnd False rest
       (fst (updateProgress (trainId train) (progressIncrementOf (newSpeedOf train (rnd index)) (delay train)) progress))
       (if snd (updateProgress (trainId train) (progressIncrementOf (newSpeedOf train (rnd index)) (delay train)) progress)
        then advanceStation (trainId train) nextStationId
               (trainRoute ! ((nextStationIndex + 1) mod length trainRoute)) trains
        else trains)"
  using assms by (simp add: Let_def split: prod.split)

lemma progressPass_eager:
  assumes "\<not> startsWithM (trainId train)"
    and "resolveTrain e train = Some (trainRoute, nextStationIndex, nextStationId, pathPoints)"
  shows "progressPass e rnd True ((index, train) # rest) progress trains =
     progressPass e rnd False rest
       (fst (updateProgress (trainId train) (progressIncrementOf (newSpeedOf train (rnd index)) (delay train)) progress))
       trains"
  using assms by (simp add: Let_def split: prod.split)

lemma progressPass_other:
  assumes "\<forall>it \<in> set its. updatesProgress e (snd it) \<longrightarrow> trainId (snd it) \<noteq> tid"
  shows "fst (progressPass e rnd eager its progress trains) tid = progress tid \<and>
         length (snd (progressPass e rnd eager its progress trains)) = length trains \<and>
         map trainId (snd (progressPass e rnd eager its progress trains)) = map trainId trains \<and>
         (\<forall>m < length trains. trainId (trains ! m) = tid \<longrightarrow>
            snd (progressPass e rnd eager its progress trains) ! m = trains ! m)"
  using assms
proof (induction its arbitrary: eager progress trains)
  case Nil
  then show ?case by simp
next
  case (Cons it its)
  obtain index train where it: "it = (index, train)" by (cases it)
  from Cons.prems have rest: "\<forall>it \<in> set its. updatesProgress e (snd it) \<longrightarrow> trainId (snd it) \<noteq> tid"
    by simp
  show ?case
  proof (cases "updatesProgress e train")
    case False
    from Cons.IH [OF rest, of eager progress trains] show ?thesis
      unfolding it progressPass_skip [OF False] .
  next
    case True
    then obtain trainRoute nextStationIndex nextStationId pathPoints
      where r: "resolveTrain e train = Some (trainRoute, nextStationIndex, nextStationId, pathPoints)"
        and nm: "\<not> startsWithM (trainId train)"
      by (auto simp: updatesProgress_def)
    from True Cons.prems it have neq: "trainId train \<noteq> tid" by simp
    let ?inc = "progressIncrementOf (newSpeedOf train (rnd index)) (delay train)"
    let ?p1 = "fst (updateProgress (trainId train) ?inc progress)"
    let ?t1 = "if snd (updateProgress (trainId train) ?inc progress) \<and> \<not> eager
        then advanceStation (trainId train) nextStationId
               (trainRoute ! ((nextStationIndex + 1) mod length trainRoute)) trains
        else trains"
    have p1: "?p1 tid = progress tid"
      using neq by (simp add: updateProgress_other)
    have len: "length ?t1 = length trains" by (simp add: advanceStation_length)
    have ids: "map trainId ?t1 = map trainId trains" by (simp add: advanceStation_ids)
    have same: "\<forall>m < length trains. trainId (trains ! m) = tid \<longrightarrow> ?t1 ! m = trains ! m"
      using neq by (auto simp: advanceStation_nth)
    from Cons.IH [OF rest, of False ?p1 ?t1] p1 len ids same
    show ?thesis
      unfolding it progressPass_update [OF nm r]
      by (metis nth_map)
  qed
qed

lemma updateProgress_at:
  "fst (updateProgress tid inc prev) tid =
     Some (if 1 \<le> storedProgress prev tid + inc then 0 else storedProgress prev tid + inc) \<and>
   snd (updateProgress tid inc prev) = (1 \<le> storedProgress prev tid + inc)"
  by (simp add: updateProgress_def storedProgress_def Let_def)

lemma storedProgress_cong: "progress tid = progress' tid \<Longrightarrow> storedProgress progress tid = storedProgress progress' tid"
  by (simp add: storedProgress_def)

lemma progressPass_own:
  assumes "distinct (map (\<lambda>it. trainId (snd it)) its)" and "(j, train) \<in> set its"
    and "\<not> startsWithM (trainId train)"
    and "resolveTrain e train = Some (trainRoute, nextStationIndex, nextStationId, pathPoints)"
  shows "fst (progressPass e rnd False its progress trains) (trainId train) =
           Some (if 1 \<le> storedProgress progress (trainId train) +
                        progressIncrementOf (newSpeedOf train (rnd j)) (delay train)
                 then 0
                 else storedProgress progress (trainId train) +
                        progressIncrementOf (newSpeedOf train (rnd j)) (delay train)) \<and>
         (\<forall>m < length trains. trainId (trains ! m) = trainId train \<longrightarrow>
            snd (progressPass e rnd False its progress trains) ! m =
              (if 1 \<le> storedProgress progress (trainId train) +
                        progressIncrementOf (newSpeedOf train (rnd j)) (delay train)
               then (trains ! m)\<lparr>currentStation := nextStationId,
                      nextStation := trainRoute ! ((nextStationIndex + 1) mod length trainRoute)\<rparr>
               else trains ! m))"
  using assms(1,2)
proof (induction its arbitrary: progress trains)
  case Nil
  then show ?case by simp
next
  case (Cons it its)
  let ?tid = "trainId train"
  let ?inc = "progressIncrementOf (newSpeedOf train (rnd j)) (delay train)"
  obtain i t' where it: "it = (i, t')" by (cases it)
  from Cons.prems(1) have dist: "distinct (map (\<lambda>it. trainId (snd it)) its)"
    and fresh: "trainId t' \<notin> set (map (\<lambda>it. trainId (snd it)) its)"
    by (simp_all add: it)
  show ?case
  proof (cases "(j, train) = (i, t')")
    case True
    then have eq: "i = j" "t' = train" by simp_all
    from fresh have rest: "\<forall>it \<in> set its. updatesProgress e (snd it) \<longrightarrow> trainId (snd it) \<noteq> ?tid"
      unfolding eq by (auto simp: image_iff)
    let ?p1 = "fst (updateProgress ?tid ?inc progress)"
    let ?t1 = "if snd (updateProgress ?tid ?inc progress)
        then advanceStation ?tid nextStationId
               (trainRoute ! ((nextStationIndex + 1) mod length trainRoute)) trains
        else trains"
    have len: "length ?t1 = length trains" by (simp add: advanceStation_length)
    have ids: "trainId (?t1 ! m) = trainId (trains ! m)" if "m < length trains" for m
      using that by (simp add: advanceStation_nth)
    from progressPass_other [OF rest, of rnd False ?p1 ?t1]
    have a: "fst (progressPass e rnd False its ?p1 ?t1) ?tid = ?p1 ?tid"
      and b: "\<forall>m < length ?t1. trainId (?t1 ! m) = ?tid \<longrightarrow> snd (progressPass e rnd False its ?p1 ?t1) ! m = ?t1 ! m"
      by blast+
    have c: "?t1 ! m = (if 1 \<le> storedProgress progress ?tid + ?inc
               then (trains ! m)\<lparr>currentStation := nextStationId,
                      nextStation := trainRoute ! ((nextStationIndex + 1) mod length trainRoute)\<rparr>
               else trains ! m)"
      if "m < length trains" "trainId (trains ! m) = ?tid" for m
      using that by (simp add: updateProgress_at advanceStation_nth)
    show ?thesis
      unfolding it eq progressPass_deferred [OF assms(3,4)]
      using a b c len ids by (simp add: updateProgress_at)
  next
    case False
    with Cons.prems(2) have mem: "(j, train) \<in> set its" by (auto simp: it)
    then have "trainId (snd (j, train)) \<in> (\<lambda>it. trainId (snd it)) ` set its" by (rule imageI)
    then have "?tid \<in> set (map (\<lambda>it. trainId (snd it)) its)" by simp
    with fresh have neq: "trainId t' \<noteq> ?tid" by metis
    show ?thesis
    proof (cases "updatesProgress e t'")
      case no: False
      from Cons.IH [OF dist mem, of progress trains] show ?thesis
        unfolding it progressPass_skip [OF no] .
    next
      case True
      then obtain r' ni' nid' path'
        where r: "resolveTrain e t' = Some (r', ni', nid', path')"
          and nm: "\<not> startsWithM (trainId t')"
        by (auto simp: updatesProgress_def)
      let ?inc' = "progressIncrementOf (newSpeedOf t' (rnd i)) (delay t')"
      let ?p1 = "fst (updateProgress (trainId t') ?inc' progress)"
      let ?t1 = "if snd (updateProgress (trainId t') ?inc' progress)
          then advanceStation (trainId t') nid' (r' ! ((ni' + 1) mod length r')) trains
          else trains"
      have p1: "storedProgress ?p1 ?tid = storedProgress progress ?tid"
        using neq by (intro storedProgress_cong) (simp add: updateProgress_other)
      have len: "length ?t1 = length trains" by (simp add: advanceStation_length)
      have same: "?t1 ! m = trains ! m" if "m < length trains" "trainId (trains ! m) = ?tid" for m
        using that neq by (auto simp: advanceStation_nth)
      from Cons.IH [OF dist mem, of ?p1 ?t1] show ?thesis
        unfolding it progressPass_deferred [OF nm r] p1 len
        using same by auto
    qed
  qed
qed

lemma zip_upt_ids: "map (\<lambda>it. trainId (snd it)) (zip [0 ..< length trains] trains) = map trainId trains"
  by (rule nth_equalityI) simp_all

lemma zip_upt_mem: "j < length trains \<Longrightarrow> (j, trains ! j) \<in> set (zip [0 ..< length trains] trains)"
  by (auto simp: set_zip intro!: exI [of _ j])


lemma tick_eq:
  "tick e rnd eager s =
     s\<lparr>animatedTrains := snd (progressPass e rnd eager (zip [0 ..< length (animatedTrains s)] (animatedTrains s))
                            (trainProgress s) (mappedTrains e rnd s)),
       trainProgress := fst (progressPass e rnd eager (zip [0 ..< length (animatedTrains s)] (animatedTrains s))
                            (trainProgress s) (mappedTrains e rnd s))\<rparr>"
  by (simp add: tick_def mappedTrains_def Let_def split: prod.split)

lemma length_mappedTrains: "length (mappedTrains e rnd s) = length (animatedTrains s)"
  by (simp add: mappedTrains_def)

lemma mappedTrains_nth:
  "j < length (animatedTrains s) \<Longrightarrow>
   mappedTrains e rnd s ! j = animateTrain e (trainProgress s) j (animatedTrains s ! j) (rnd j)"
  by (simp add: mappedTrains_def)

lemma trainId_animateTrain: "trainId (animateTrain e progress index train r) = trainId train"
  by (simp add: animateTrain_def Let_def split: option.split prod.split)

lemma animateTrain_manual: "startsWithM (trainId train) \<Longrightarrow> animateTrain e progress index train r = train"
  by (simp add: animateTrain_def)


lemma animateTrain_resolved:
  "\<not> startsWithM (trainId train) \<Longrightarrow>
   resolveTrain e train = Some (trainRoute, nextStationIndex, nextStationId, pathPoints) \<Longrightarrow>
   animateTrain e progress index train r =
     train\<lparr>speed := mathRound (newSpeedOf train r),
           position := fst (getPointAlongPath pathPoints
             (min (95 / 100) (storedProgress progress (trainId train) + real (index mod 3) * (1 / 10))))\<rparr>"
  by (simp add: animateTrain_def Let_def storedProgress_def)

lemma tick_manual:
  "(\<forall>tid. startsWithM tid \<longrightarrow> trainProgress (tick e rnd eager s) tid = trainProgress s tid) \<and>
   manualTrains (tick e rnd eager s) = manualTrains s \<and>
   length (animatedTrains (tick e rnd eager s)) = length (animatedTrains s) \<and>
   (\<forall>j < length (animatedTrains s). startsWithM (trainId (animatedTrains s ! j)) \<longrightarrow>
      animatedTrains (tick e rnd eager s) ! j = animatedTrains s ! j)"
proof -
  let ?its = "zip [0 ..< length (animatedTrains s)] (animatedTrains s)"
  have other: "\<forall>it \<in> set ?its. updatesProgress e (snd it) \<longrightarrow> trainId (snd it) \<noteq> tid"
    if "startsWithM tid" for tid
    using that by (auto simp: updatesProgress_def)
  have prog: "trainProgress (tick e rnd eager s) tid = trainProgress s tid" if "startsWithM tid" for tid
    using progressPass_other [OF other [OF that], of rnd eager "trainProgress s" "mappedTrains e rnd s"]
    by (simp add: tick_eq)
  have len: "length (animatedTrains (tick e rnd eager s)) = length (animatedTrains s)"
    using progressPass_other [OF other [of "''M''"], of rnd eager "trainProgress s" "mappedTrains e rnd s"]
    by (simp add: tick_eq length_mappedTrains startsWithM_def)
  have same: "animatedTrains (tick e rnd eager s) ! j = animatedTrains s ! j"
    if j: "j < length (animatedTrains s)" and m: "startsWithM (trainId (animatedTrains s ! j))" for j
  proof -
    have mj: "mappedTrains e rnd s ! j = animatedTrains s ! j"
      using j m by (simp add: mappedTrains_nth animateTrain_manual)
    from progressPass_other [OF other [OF m], of rnd eager "trainProgress s" "mappedTrains e rnd s"] j mj
    show ?thesis by (simp add: tick_eq length_mappedTrains)
  qed
  from prog len same show ?thesis by (simp add: tick_eq)
qed

lemma resolveTrain_SomeD:
  assumes "resolveTrain e train = Some (trainRoute, nextStationIndex, nextStationId, pathPoints)"
  shows "trainRoute = (case trainRoutes e (trainId train) of Some r \<Rightarrow> r | None \<Rightarrow> route train)"
    and "trainRoute \<noteq> []"
    and "nextStationIndex = nat ((indexOf trainRoute (currentStation train) + 1) mod int (length trainRoute))"
    and "nextStationId = trainRoute ! nextStationIndex"
    and "getLinePointsBetweenStations (realLines e) (currentStation train) nextStationId = Some pathPoints"
    and "2 \<le> length pathPoints"
  using assms
  by (auto simp: resolveTrain_def Let_def split: if_splits option.splits)

lemma indexOf_ge: "- 1 \<le> indexOf xs a"
  by (simp add: indexOf_def)

lemma next_next_index:
  fixes k :: int and n :: nat
  assumes "- 1 \<le> k" and "0 < n"
  shows "(nat ((k + 1) mod int n) + 1) mod n = nat ((k + 2) mod int n)"
proof -
  have nonneg: "0 \<le> (k + 1) mod int n" using assms(2) by simp
  have "int ((nat ((k + 1) mod int n) + 1) mod n) = ((k + 1) mod int n + 1) mod int n"
    using nonneg by (simp add: zmod_int add.commute)
  also have "\<dots> = (k + 1 + 1) mod int n" by (simp add: mod_add_left_eq)
  also have "\<dots> = (k + 2) mod int n" by (simp add: add.assoc)
  finally show ?thesis by linarith
qed

lemma tick_resolved:
  assumes d: "distinct (map trainId (animatedTrains s))" and j: "j < length (animatedTrains s)"
    and nm: "\<not> startsWithM (trainId (animatedTrains s ! j))"
    and r: "resolveTrain e (animatedTrains s ! j) = Some (trainRoute, nextStationIndex, nextStationId, pathPoints)"
  shows "trainProgress (tick e rnd False s) (trainId (animatedTrains s ! j)) =
           Some (if 1 \<le> storedProgress (trainProgress s) (trainId (animatedTrains s ! j)) +
                        progressIncrementOf (newSpeedOf (animatedTrains s ! j) (rnd j)) (delay (animatedTrains s ! j))
                 then 0
                 else storedProgress (trainProgress s) (trainId (animatedTrains s ! j)) +
                        progressIncrementOf (newSpeedOf (animatedTrains s ! j) (rnd j)) (delay (animatedTrains s ! j)))"
    and "animatedTrains (tick e rnd False s) ! j =
           (if 1 \<le> storedProgress (trainProgress s) (trainId (animatedTrains s ! j)) +
                        progressIncrementOf (newSpeedOf (animatedTrains s ! j) (rnd j)) (delay (animatedTrains s ! j))
            then (mappedTrains e rnd s ! j)\<lparr>currentStation := nextStationId,
                   nextStation := trainRoute ! ((nextStationIndex + 1) mod length trainRoute)\<rparr>
            else mappedTrains e rnd s ! j)"
proof -
  let ?its = "zip [0 ..< length (animatedTrains s)] (animatedTrains s)"
  from d have dist: "distinct (map (\<lambda>it. trainId (snd it)) ?its)"
    by (simp only: zip_upt_ids)
  from j have mem: "(j, animatedTrains s ! j) \<in> set ?its" by (rule zip_upt_mem)
  have idj: "trainId (mappedTrains e rnd s ! j) = trainId (animatedTrains s ! j)"
    using j by (simp add: mappedTrains_nth trainId_animateTrain)
  note own = progressPass_own [OF dist mem nm r, of rnd "trainProgress s" "mappedTrains e rnd s"]
  from own show "trainProgress (tick e rnd False s) (trainId (animatedTrains s ! j)) =
           Some (if 1 \<le> storedProgress (trainProgress s) (trainId (animatedTrains s ! j)) +
                        progressIncrementOf (newSpeedOf (animatedTrains s ! j) (rnd j)) (delay (animatedTrains s ! j))
                 then 0
                 else storedProgress (trainProgress s) (trainId (animatedTrains s ! j)) +
                        progressIncrementOf (newSpeedOf (animatedTrains s ! j) (rnd j)) (delay (animatedTrains s ! j)))"
    by (simp add: tick_eq)
  from own j idj show "animatedTrains (tick e rnd False s) ! j =
           (if 1 \<le> storedProgress (trainProgress s) (trainId (animatedTrains s ! j)) +
                        progressIncrementOf (newSpeedOf (animatedTrains s ! j) (rnd j)) (delay (animatedTrains s ! j))
            then (mappedTrains e rnd s ! j)\<lparr>currentStation := nextStationId,
                   nextStation := trainRoute ! ((nextStationIndex + 1) mod length trainRoute)\<rparr>
            else mappedTrains e rnd s ! j)"
    by (simp add: tick_eq length_mappedTrains)
qed


lemma example_resolve_T002:
  "resolveTrain exampleEnv (exampleTrains ! 0) =
     Some ([''ST001'', ''ST002'', ''ST003'', ''ST001''], 1, ''ST002'', [(350, 250), (400, 300)])"
  by (simp add: resolveTrain_def exampleEnv_def exampleTrains_def indexOf_def
      getLinePointsBetweenStations_def trackSegments_def Let_def)

lemma example_resolve_T001: "resolveTrain exampleEnv (exampleTrains ! 1) = None"
  by (simp add: resolveTrain_def exampleEnv_def exampleTrains_def indexOf_def
      getLinePointsBetweenStations_def trackSegments_def Let_def)

lemma example_state:
  "animatedTrains exampleState = exampleTrains"
  "trainProgress exampleState = [''T002'' \<mapsto> 99 / 100, ''T001'' \<mapsto> 1 / 2, ''M17'' \<mapsto> 1 / 4]"
  by (simp_all add: exampleState_def initialState_def)

lemma example_distinct: "distinct (map trainId (animatedTrains exampleState))"
  by (simp add: example_state exampleTrains_def)

lemma progressPass_fst:
  "fst (progressPass e rnd eager its progress trains) = fst (progressPass e rnd False its progress [])"
proof (induction its arbitrary: eager progress trains)
  case Nil
  then show ?case by simp
next
  case (Cons it its)
  obtain index train where it: "it = (index, train)" by (cases it)
  show ?case
  proof (cases "updatesProgress e train")
    case False
    from Cons.IH [of eager progress trains] Cons.IH [of False progress "[]"] show ?thesis
      unfolding it progressPass_skip [OF False] by simp
  next
    case True
    then obtain trainRoute nextStationIndex nextStationId pathPoints
      where r: "resolveTrain e train = Some (trainRoute, nextStationIndex, nextStationId, pathPoints)"
        and nm: "\<not> startsWithM (trainId train)"
      by (auto simp: updatesProgress_def)
    show ?thesis
      unfolding it progressPass_update [OF nm r]
      using Cons.IH [of False] by metis
  qed
qed

lemma tick_progress_any: "trainProgress (tick e rnd eager s) = trainProgress (tick e rnd False s)"
proof -
  let ?its = "zip [0 ..< length (animatedTrains s)] (animatedTrains s)"
  have "fst (progressPass e rnd eager ?its (trainProgress s) (mappedTrains e rnd s)) =
      fst (progressPass e rnd False ?its (trainProgress s) [])"
    by (rule progressPass_fst)
  also have "\<dots> = fst (progressPass e rnd False ?its (trainProgress s) (mappedTrains e rnd s))"
    by (rule progressPass_fst [symmetric])
  finally show ?thesis by (simp add: tick_eq)
qed

lemma tick_deferred_wraparound:
  assumes "distinct (map trainId (animatedTrains s))" and "j < length (animatedTrains s)"
    and "\<not> startsWithM (trainId (animatedTrains s ! j))"
    and "resolveTrain e (animatedTrains s ! j) = Some (trainRoute, nextStationIndex, nextStationId, pathPoints)"
  shows "progressIncrementOf newSpeed trainDelay =
           (newSpeed / 100) * (if trainDelay > 0 then 7 / 10 else 1) * (15 / 1000) \<and>
         trainRoute = (case trainRoutes e (trainId (animatedTrains s ! j)) of
                         Some r \<Rightarrow> r | None \<Rightarrow> route (animatedTrains s ! j)) \<and>
         (1 \<le> storedProgress (trainProgress s) (trainId (animatedTrains s ! j)) +
               progressIncrementOf (newSpeedOf (animatedTrains s ! j) (rnd j)) (delay (animatedTrains s ! j)) \<longrightarrow>
            trainProgress (tick e rnd eager s) (trainId (animatedTrains s ! j)) = Some 0 \<and>
            currentStation (animatedTrains (tick e rnd False s) ! j) =
              trainRoute ! nat ((indexOf trainRoute (currentStation (animatedTrains s ! j)) + 1)
                                  mod int (length trainRoute)) \<and>
            nextStation (animatedTrains (tick e rnd False s) ! j) =
              trainRoute ! nat ((indexOf trainRoute (currentStation (animatedTrains s ! j)) + 2)
                                  mod int (length trainRoute))) \<and>
         (storedProgress (trainProgress s) (trainId (animatedTrains s ! j)) +
               progressIncrementOf (newSpeedOf (animatedTrains s ! j) (rnd j)) (delay (animatedTrains s ! j)) < 1 \<longrightarrow>
            trainProgress (tick e rnd eager s) (trainId (animatedTrains s ! j)) =
              Some (storedProgress (trainProgress s) (trainId (animatedTrains s ! j)) +
                    progressIncrementOf (newSpeedOf (animatedTrains s ! j) (rnd j)) (delay (animatedTrains s ! j))) \<and>
            currentStation (animatedTrains (tick e rnd False s) ! j) = currentStation (animatedTrains s ! j) \<and>
            nextStation (animatedTrains (tick e rnd False s) ! j) = nextStation (animatedTrains s ! j)) \<and>
         updateProgress tid (5 / 100) [tid \<mapsto> 97 / 100] = ([tid \<mapsto> 0], True)"
proof -
  let ?train = "animatedTrains s ! j"
  note rd = resolveTrain_SomeD [OF assms(4)]
  from rd(2) have len: "0 < length trainRoute" by simp
  have nn: "(nextStationIndex + 1) mod length trainRoute =
      nat ((indexOf trainRoute (currentStation ?train) + 2) mod int (length trainRoute))"
    unfolding rd(3) by (rule next_next_index [OF indexOf_ge len])
  have mapped: "mappedTrains e rnd s ! j =
      ?train\<lparr>speed := mathRound (newSpeedOf ?train (rnd j)),
              position := fst (getPointAlongPath pathPoints
                (min (95 / 100) (storedProgress (trainProgress s) (trainId ?train) + real (j mod 3) * (1 / 10))))\<rparr>"
    using assms(2) by (simp add: mappedTrains_nth animateTrain_resolved [OF assms(3,4)])
  have inc: "progressIncrementOf newSpeed trainDelay =
           (newSpeed / 100) * (if trainDelay > 0 then 7 / 10 else 1) * (15 / 1000)"
    by (simp add: progressIncrementOf_def Let_def)
  have ex: "updateProgress tid (5 / 100) [tid \<mapsto> 97 / 100] = ([tid \<mapsto> 0], True)"
    by (simp add: updateProgress_def Let_def)
  from tick_resolved [OF assms, of rnd] mapped nn rd(1,3,4) inc ex show ?thesis
    unfolding tick_progress_any [of e rnd eager s] by simp
qed

text \<open>
  Claim C5, on the code. The train \<open>T002\<close> of the example is the first of the list, not
  manual, with a resolved path, at stored progress \<open>0.99\<close>; its increment with the draws
  \<open>(0, 0.5)\<close> is \<open>0.015\<close>, so the tick wraps it. When React runs the outer updater at its
  dispatch, the stored progress becomes \<open>0\<close> and the train keeps its current station
  \<open>ST001\<close>: the station update is lost, and the train starts the same segment again. When
  the outer updater is run with the queue, the current and next station become \<open>ST002\<close>
  and \<open>ST003\<close>, the next two stations of the route, as the claim says.
\<close>

theorem tick_loses_station_advance:
  "\<not> startsWithM (trainId (animatedTrains exampleState ! 0)) \<and>
   resolveTrain exampleEnv (animatedTrains exampleState ! 0) =
     Some ([''ST001'', ''ST002'', ''ST003'', ''ST001''], 1, ''ST002'', [(350, 250), (400, 300)]) \<and>
   storedProgress (trainProgress exampleState) ''T002'' = 99 / 100 \<and>
   progressIncrementOf (newSpeedOf (animatedTrains exampleState ! 0) (0, 1 / 2))
     (delay (animatedTrains exampleState ! 0)) = 15 / 1000 \<and>
   currentStation (animatedTrains exampleState ! 0) = ''ST001'' \<and>
   trainProgress (tick exampleEnv (\<lambda>i. (0, 1 / 2)) True exampleState) ''T002'' = Some 0 \<and>
   currentStation (animatedTrains (tick exampleEnv (\<lambda>i. (0, 1 / 2)) True exampleState) ! 0) = ''ST001'' \<and>
   trainProgress (tick exampleEnv (\<lambda>i. (0, 1 / 2)) False exampleState) ''T002'' = Some 0 \<and>
   currentStation (animatedTrains (tick exampleEnv (\<lambda>i. (0, 1 / 2)) False exampleState) ! 0) = ''ST002'' \<and>
   nextStation (animatedTrains (tick exampleEnv (\<lambda>i. (0, 1 / 2)) False exampleState) ! 0) = ''ST003''"
proof -
  let ?rnd = "\<lambda>i :: nat. (0 :: real, 1 / 2 :: real)"
  have j: "0 < length (animatedTrains exampleState)"
    by (simp add: example_state exampleTrains_def)
  have t: "animatedTrains exampleState ! 0 =
      \<lparr>trainId = ''T002'', trainType = Express, currentStation = ''ST001'', nextStation = ''ST003'',
       speed = 110, maxSpeed = 130, delay = 0, route = [''ST001'', ''ST003''], position = (400, 300)\<rparr>"
    by (simp add: example_state exampleTrains_def)
  have nm: "\<not> startsWithM (trainId (animatedTrains exampleState ! 0))"
    by (simp add: t startsWithM_def)
  have r: "resolveTrain exampleEnv (animatedTrains exampleState ! 0) =
     Some ([''ST001'', ''ST002'', ''ST003'', ''ST001''], 1, ''ST002'', [(350, 250), (400, 300)])"
    by (simp only: example_state example_resolve_T002)
  have p: "storedProgress (trainProgress exampleState) ''T002'' = 99 / 100"
    by (simp add: storedProgress_def example_state)
  have i: "progressIncrementOf (newSpeedOf (animatedTrains exampleState ! 0) (0, 1 / 2))
      (delay (animatedTrains exampleState ! 0)) = 15 / 1000"
    by (simp add: t progressIncrementOf_def newSpeedOf_def getRandomSpeed_def Let_def)
  have its: "zip [0 ..< length (animatedTrains exampleState)] (animatedTrains exampleState) =
      [(0, animatedTrains exampleState ! 0), (1, exampleTrains ! 1), (2, exampleTrains ! 2)]"
    by (simp add: example_state exampleTrains_def upt_rec)
  have skip1: "\<not> updatesProgress exampleEnv (exampleTrains ! 1)"
    unfolding updatesProgress_def example_resolve_T001 by simp
  have skip2: "\<not> updatesProgress exampleEnv (exampleTrains ! 2)"
    by (simp add: updatesProgress_def exampleTrains_def startsWithM_def)
  have eager: "animatedTrains (tick exampleEnv ?rnd True exampleState) = mappedTrains exampleEnv ?rnd exampleState"
    unfolding tick_eq its progressPass_eager [OF nm r] progressPass_skip [OF skip1] progressPass_skip [OF skip2]
    by simp
  have m0: "currentStation (mappedTrains exampleEnv ?rnd exampleState ! 0) = ''ST001''"
    unfolding mappedTrains_nth [OF j] animateTrain_resolved [OF nm r] by (simp add: t)
  have progress: "trainProgress (tick exampleEnv ?rnd False exampleState) ''T002'' = Some 0"
    using tick_resolved(1) [OF example_distinct j nm r, of ?rnd] p i by (simp add: t)
  have deferred: "animatedTrains (tick exampleEnv ?rnd False exampleState) ! 0 =
      (mappedTrains exampleEnv ?rnd exampleState ! 0)\<lparr>currentStation := ''ST002'', nextStation := ''ST003''\<rparr>"
    using tick_resolved(2) [OF example_distinct j nm r, of ?rnd] p i by (simp add: t)
  from nm r p i t eager m0 progress deferred tick_progress_any [of exampleEnv ?rnd True exampleState]
  show ?thesis by simp
qed











lemma getLinePointsBetweenStations_length:
  "getLinePointsBetweenStations lines a b = Some pathPoints \<Longrightarrow> 2 \<le> length pathPoints"
  by (auto simp: getLinePointsBetweenStations_def Let_def split: option.splits if_splits)

lemma resolveTrain_None_iff:
  "resolveTrain e train = None \<longleftrightarrow>
     (let trainRoute = (case trainRoutes e (trainId train) of Some r \<Rightarrow> r | None \<Rightarrow> route train) in
      trainRoute = [] \<or>
      getLinePointsBetweenStations (realLines e) (currentStation train)
        (trainRoute ! nat ((indexOf trainRoute (currentStation train) + 1) mod int (length trainRoute))) = None)"
  by (auto simp: resolveTrain_def Let_def split: option.splits dest: getLinePointsBetweenStations_length)







text \<open>
  Claim C10. A tick returns every train whose id begins with \<open>M\<close> unchanged (position and
  speed included), leaves the stored progress of every such id and the list of manually
  placed trains as they were, and keeps the number of trains.
\<close>

theorem manual_trains_not_animated:
  "(\<forall>tid. startsWithM tid \<longrightarrow> trainProgress (tick e rnd eager s) tid = trainProgress s tid) \<and>
   manualTrains (tick e rnd eager s) = manualTrains s \<and>
   length (animatedTrains (tick e rnd eager s)) = length (animatedTrains s) \<and>
   (\<forall>j < length (animatedTrains s). startsWithM (trainId (animatedTrains s ! j)) \<longrightarrow>
      animatedTrains (tick e rnd eager s) ! j = animatedTrains s ! j \<and>
      position (animatedTrains (tick e rnd eager s) ! j) = position (animatedTrains s ! j) \<and>
      speed (animatedTrains (tick e rnd eager s) ! j) = speed (animatedTrains s ! j)) \<and>
   dispatch e (Tick eager rnd) s = tick e rnd eager s"
  using tick_manual [of e rnd eager s] by simp

theorem manual_trains_not_animated_witness:
  "startsWithM (trainId (animatedTrains exampleState ! 2)) \<and>
   animatedTrains (tick exampleEnv (\<lambda>i. (0, 1 / 2)) True exampleState) ! 2 = animatedTrains exampleState ! 2 \<and>
   trainProgress (tick exampleEnv (\<lambda>i. (0, 1 / 2)) True exampleState) ''M17'' = Some (1 / 4)"
proof -
  have j: "2 < length (animatedTrains exampleState)"
    by (simp add: example_state exampleTrains_def)
  have m: "startsWithM (trainId (animatedTrains exampleState ! 2))" "startsWithM ''M17''"
    by (simp_all add: example_state exampleTrains_def startsWithM_def)
  have p: "trainProgress exampleState ''M17'' = Some (1 / 4)"
    by (simp add: example_state)
  from manual_trains_not_animated [where e = exampleEnv and rnd = "\<lambda>i. (0, 1 / 2)" and eager = True
      and s = exampleState] j m p
  show ?thesis by simp
qed

subsection \<open>Double arithmetic, the inclusive scan and the endpoints of a path\<close>

lemma lengthsLoopF_exact:
  "lengthsLoopF (\<lambda>v. Some v) (\<lambda>dx dy. Some (hypot dx dy)) points i sl t = Some (lengthsLoop points i sl t)"
proof (induction points i sl t rule: lengthsLoop.induct)
  case (1 points i sl t)
  show ?case
  proof (cases "i < length points - 1")
    case True
    with 1 show ?thesis
      by (subst lengthsLoopF.simps, subst lengthsLoop.simps) (simp add: Let_def)
  next
    case False
    then show ?thesis
      by (subst lengthsLoopF.simps, subst lengthsLoop.simps) simp
  qed
qed

lemma scanLoopF_exact:
  "scanLoopF (\<lambda>v. Some v) points lens target i acc = Some (scanLoop points lens target i acc)"
proof (induction points lens target i acc rule: scanLoop.induct)
  case (1 points lens target i acc)
  show ?case
  proof (cases "i < length lens")
    case True
    show ?thesis
    proof (cases "target \<le> acc + lens ! i")
      case le: True
      with True show ?thesis
        by (subst scanLoopF.simps, subst scanLoop.simps) (simp add: Let_def divideF_def)
    next
      case gt: False
      from "1.IH" [OF True refl gt] True gt show ?thesis
        by (subst scanLoopF.simps, subst scanLoop.simps) (simp add: Let_def)
    qed
  next
    case False
    then show ?thesis
      by (subst scanLoopF.simps, subst scanLoop.simps) simp
  qed
qed

lemma getPointAlongPathF_exact:
  "getPointAlongPathF (\<lambda>v. Some v) (\<lambda>dx dy. Some (hypot dx dy)) points progress =
     Some (getPointAlongPath points progress)"
  by (simp add: getPointAlongPathF_def getPointAlongPath_def lengthsLoopF_exact scanLoopF_exact
      Let_def split: prod.split option.split)

lemma lengthsLoopF_lengths:
  assumes "\<And>dx dy l. hyp dx dy = Some l \<Longrightarrow> 0 \<le> l" and "\<forall>l \<in> set sl. 0 \<le> l"
    and "lengthsLoopF rnd hyp points i sl t = Some (lens, tot)"
  shows "length lens = length sl + (length points - 1 - i) \<and> (\<forall>l \<in> set lens. 0 \<le> l)"
  using assms
proof (induction rnd hyp points i sl t rule: lengthsLoopF.induct)
  case (1 rnd hyp points i sl t)
  show ?case
  proof (cases "i < length points - 1")
    case True
    from "1.prems"(3) True obtain dx dy len nextTotal
      where dx: "rnd (fst (points ! (i + 1)) - fst (points ! i)) = Some dx"
        and dy: "rnd (snd (points ! (i + 1)) - snd (points ! i)) = Some dy"
        and len: "hyp dx dy = Some len"
        and nt: "rnd (t + len) = Some nextTotal"
        and rest: "lengthsLoopF rnd hyp points (i + 1) (sl @ [len]) nextTotal = Some (lens, tot)"
      by (subst (asm) lengthsLoopF.simps) (auto simp: bind_eq_Some_conv)
    from "1.prems"(2) "1.prems"(1) [OF len] have nn: "\<forall>l \<in> set (sl @ [len]). 0 \<le> l" by simp
    from "1.IH" [OF True dx dy len nt "1.prems"(1) nn rest] True show ?thesis
      by simp
  next
    case False
    with "1.prems" show ?thesis
      by (subst (asm) lengthsLoopF.simps) simp
  qed
qed

lemma getPointAlongPathF_start:
  assumes r0: "rnd 0 = Some 0" and rnn: "\<And>v w. 0 \<le> v \<Longrightarrow> rnd v = Some w \<Longrightarrow> 0 \<le> w"
    and hnn: "\<And>dx dy l. hyp dx dy = Some l \<Longrightarrow> 0 \<le> l"
    and rep: "rnd (fst (points ! 0)) = Some (fst (points ! 0))" "rnd (snd (points ! 0)) = Some (snd (points ! 0))"
    and ne: "points \<noteq> []"
    and run: "getPointAlongPathF rnd hyp points 0 = Some r"
  shows "fst r = points ! 0"
proof (cases "length points = 1")
  case True
  with run show ?thesis by (auto simp: getPointAlongPathF_def)
next
  case False
  from ne have "length points \<noteq> 0" by simp
  with False have len: "2 \<le> length points" by linarith
  from run ne False obtain lens tot where l: "lengthsLoopF rnd hyp points 0 [] 0 = Some (lens, tot)"
    by (auto simp: getPointAlongPathF_def bind_eq_Some_conv)
  from lengthsLoopF_lengths [OF hnn _ l] len
  have lens: "0 < length lens" "0 \<le> lens ! 0" by auto
  have nn: "0 \<le> n" if "rnd (lens ! 0) = Some n" for n
    using lens(2) that by (rule rnn)
  have scan: "\<exists>tg. found = Some (points ! 0, tg)" if "scanLoopF rnd points lens 0 0 0 = Some found" for found
    using that lens(1)
    by (subst (asm) scanLoopF.simps)
      (auto simp: bind_eq_Some_conv Let_def r0 rep divideF_def prod_eq_iff split: if_splits dest: nn)
  show ?thesis
  proof (cases "tot = 0")
    case True
    with run ne False l show ?thesis by (auto simp: getPointAlongPathF_def)
  next
    case nz: False
    have t0: "rnd (max 0 (min 1 0) * tot) = Some 0" by (simp add: r0)
    show ?thesis
    proof (cases "scanLoopF rnd points lens 0 0 0")
      case None
      with ne False l nz t0 have "getPointAlongPathF rnd hyp points 0 = None"
        by (simp add: getPointAlongPathF_def)
      with run show ?thesis by simp
    next
      case (Some found)
      from scan [OF Some] obtain tg where "found = Some (points ! 0, tg)" by blast
      with Some ne False l nz t0 have "getPointAlongPathF rnd hyp points 0 = Some (points ! 0, tg)"
        by (simp add: getPointAlongPathF_def)
      with run show ?thesis by auto
    qed
  qed
qed

lemma rounded_end:
  "map_option fst (getPointAlongPathF roundDouble hypotDouble roundedPath 1) =
     Some (900719925474099 / 9007199254740992, 0)"
  by (simp add: roundedPath_def getPointAlongPathF_def lengthsLoopF.simps scanLoopF.simps hypotDouble_def
      divideF_def hypot_axis1 Let_def roundDouble_0 roundDouble_at roundHalfEven_def power_int_minus)





lemma roundedPath_total: "0 < pathTotal roundedPath"
  by (simp add: roundedPath_def pathTotal_def lengthsLoop.simps hypot_axis1 Let_def)

lemma rounded_start:
  "getPointAlongPathF roundDouble hypotDouble roundedPath 0 =
     Some ((1 / 2, 0), (- (7205759403792794 / 18014398509481984), 0))"
  by (simp add: roundedPath_def getPointAlongPathF_def lengthsLoopF.simps scanLoopF.simps hypotDouble_def
      divideF_def hypot_axis1 Let_def roundDouble_0 roundDouble_at roundHalfEven_def power_int_minus)

text \<open>
  Claim C7, amended. For a path of positive total length, evaluating at progress \<open>0\<close>
  returns exactly the first point, in exact arithmetic and, whenever the evaluation
  returns a value, under every rounding and every norm that keep \<open>0\<close> and the sign of
  non-negative numbers and represent the first point: so in double arithmetic as long as
  no arithmetic result overflows. Evaluating at progress \<open>1\<close> returns exactly the last
  point in exact arithmetic, where the function is the interpolation \<open>p0 + (p1 - p0) * 1\<close>
  on the last segment of non-zero length. The function in double arithmetic is the exact
  one when nothing is rounded.
\<close>

theorem getPointAlongPath_endpoints:
  assumes "0 < pathTotal points"
  shows "fst (getPointAlongPath points 0) = points ! 0 \<and>
         fst (getPointAlongPath points 1) = points ! (length points - 1) \<and>
         getPointAlongPathF (\<lambda>v. Some v) (\<lambda>dx dy. Some (hypot dx dy)) points progress =
           Some (getPointAlongPath points progress) \<and>
         (rnd 0 = Some 0 \<and> (\<forall>v w. 0 \<le> v \<and> rnd v = Some w \<longrightarrow> 0 \<le> w) \<and>
          (\<forall>dx dy l. hyp dx dy = Some l \<longrightarrow> 0 \<le> l) \<and>
          rnd (fst (points ! 0)) = Some (fst (points ! 0)) \<and> rnd (snd (points ! 0)) = Some (snd (points ! 0)) \<and>
          getPointAlongPathF rnd hyp points 0 = Some r \<longrightarrow>
            fst r = points ! 0)"
proof -
  from assms have "2 \<le> length points" by (rule pathTotal_pos_length)
  then have ne: "points \<noteq> []" by auto
  have "fst r = points ! 0"
    if "rnd 0 = Some 0" "\<forall>v w. 0 \<le> v \<and> rnd v = Some w \<longrightarrow> 0 \<le> w" "\<forall>dx dy l. hyp dx dy = Some l \<longrightarrow> 0 \<le> l"
      "rnd (fst (points ! 0)) = Some (fst (points ! 0))" "rnd (snd (points ! 0)) = Some (snd (points ! 0))"
      "getPointAlongPathF rnd hyp points 0 = Some r"
  proof (rule getPointAlongPathF_start [OF that(1) _ _ that(4,5) ne that(6)])
    show "0 \<le> w" if "0 \<le> v" "rnd v = Some w" for v w
      using \<open>\<forall>v w. 0 \<le> v \<and> rnd v = Some w \<longrightarrow> 0 \<le> w\<close> that by blast
    show "0 \<le> l" if "hyp dx dy = Some l" for dx dy l
      using \<open>\<forall>dx dy l. hyp dx dy = Some l \<longrightarrow> 0 \<le> l\<close> that by blast
  qed
  with getPointAlongPath_start [OF assms] getPointAlongPath_end [OF assms]
    getPointAlongPathF_exact [of points progress]
  show ?thesis by blast
qed

theorem getPointAlongPath_endpoints_witness:
  "0 < pathTotal roundedPath \<and>
   fst (getPointAlongPath roundedPath 0) = roundedPath ! 0 \<and>
   fst (getPointAlongPath roundedPath 1) = roundedPath ! (length roundedPath - 1) \<and>
   getPointAlongPathF roundDouble hypotDouble roundedPath 0 =
     Some ((1 / 2, 0), (- (7205759403792794 / 18014398509481984), 0)) \<and>
   fst ((1 / 2, 0), (- (7205759403792794 / 18014398509481984 :: real), 0 :: real)) = roundedPath ! 0"
proof -
  have rep: "roundDouble (fst (roundedPath ! 0)) = Some (fst (roundedPath ! 0))"
      "roundDouble (snd (roundedPath ! 0)) = Some (snd (roundedPath ! 0))"
    using rounded_inputs by (simp_all add: roundedPath_def roundDouble_0)
  have rnn: "\<forall>v w. 0 \<le> v \<and> roundDouble v = Some w \<longrightarrow> 0 \<le> w"
    using roundDouble_nonneg by blast
  have hnn: "\<forall>dx dy l. hypotDouble dx dy = Some l \<longrightarrow> 0 \<le> l"
    using hypotDouble_nonneg by blast
  from getPointAlongPath_endpoints [OF roundedPath_total, where rnd = roundDouble and hyp = hypotDouble
      and r = "((1 / 2, 0), (- (7205759403792794 / 18014398509481984), 0))"]
    roundDouble_0 rnn hnn rep rounded_start roundedPath_total
  show ?thesis by blast
qed

text \<open>
  Claim C7, as stated, fails in double arithmetic: on the path from \<open>(0.5, 0)\<close> to
  \<open>(0.1, 0)\<close>, whose coordinates are doubles and whose length is positive, progress \<open>1\<close>
  returns the abscissa \<open>0.5 + (0.1 - 0.5) * 1 = 0.09999999999999998\<close>, two units in the last
  place below the last point's \<open>0.1\<close>.
\<close>

theorem endpoint_exactness_counterexample:
  "0 < pathTotal roundedPath \<and>
   roundDouble (1 / 2) = Some (1 / 2) \<and>
   roundDouble (3602879701896397 / 36028797018963968) = Some (3602879701896397 / 36028797018963968) \<and>
   roundedPath ! (length roundedPath - 1) = (3602879701896397 / 36028797018963968, 0) \<and>
   map_option fst (getPointAlongPathF roundDouble hypotDouble roundedPath 1) =
     Some (900719925474099 / 9007199254740992, 0) \<and>
   (900719925474099 / 9007199254740992, 0) \<noteq> roundedPath ! (length roundedPath - 1)"
proof -
  have last: "roundedPath ! (length roundedPath - 1) = (3602879701896397 / 36028797018963968, 0)"
    by (simp add: roundedPath_def)
  have "(900719925474099 / 9007199254740992 :: real) \<noteq> 3602879701896397 / 36028797018963968"
    by simp
  with rounded_end last rounded_inputs roundedPath_total show ?thesis by simp
qed

end
